theory Spec2Isabelle
  imports Main "HOL-Library.Sublist" "HOL-Library.AList"
begin

section \<open>Strings and the character classes of the patterns\<close>

text \<open>
  A Python \<open>str\<close> that the service receives (a URL, an anchor text, an href, a page
  body) is a \<^typ>\<open>string\<close>: a list of characters, each read as one code point in
  U+0000..U+00FF. On that range \<open>\s\<close> and \<open>str.strip\<close> use the same white space
  (9..13, 28..32, 133, 160), \<open>\d\<close> is \<open>0\<close>..\<open>9\<close>, and \<open>re.IGNORECASE\<close> pairs a
  letter only with its other case. Text that \<open>bytes.decode\<close> produces may leave the
  range and is a list of code points (\<^typ>\<open>nat list\<close>).
\<close>

definition is_space :: "char \<Rightarrow> bool" where
  "is_space c =
     ((9 \<le> (of_char c :: nat) \<and> (of_char c :: nat) \<le> 13)
      \<or> (28 \<le> (of_char c :: nat) \<and> (of_char c :: nat) \<le> 32)
      \<or> (of_char c :: nat) = 133 \<or> (of_char c :: nat) = 160)"

definition is_digit :: "char \<Rightarrow> bool" where
  "is_digit c = (48 \<le> (of_char c :: nat) \<and> (of_char c :: nat) \<le> 57)"

definition is_upper :: "char \<Rightarrow> bool" where
  "is_upper c = (65 \<le> (of_char c :: nat) \<and> (of_char c :: nat) \<le> 90)"

definition is_lower :: "char \<Rightarrow> bool" where
  "is_lower c = (97 \<le> (of_char c :: nat) \<and> (of_char c :: nat) \<le> 122)"

definition is_alnum :: "char \<Rightarrow> bool" where
  \<comment> \<open>the class \<open>[A-Za-z0-9]\<close>\<close>
  "is_alnum c = (is_upper c \<or> is_lower c \<or> is_digit c)"

definition is_numchar :: "char \<Rightarrow> bool" where
  \<comment> \<open>the class \<open>[\d\.,]\<close>\<close>
  "is_numchar c = (is_digit c \<or> c = CHR ''.'' \<or> c = CHR '','')"

definition is_b64char :: "char \<Rightarrow> bool" where
  \<comment> \<open>the class \<open>[A-Za-z0-9+/=]\<close>\<close>
  "is_b64char c = (is_alnum c \<or> c = CHR ''+'' \<or> c = CHR ''/'' \<or> c = CHR ''='')"

definition ascii_upper :: "char \<Rightarrow> char" where
  \<comment> \<open>\<open>str.upper\<close> on one ASCII character\<close>
  "ascii_upper c = (if is_lower c then char_of (of_char c - (32::nat)) else c)"

definition strip :: "string \<Rightarrow> string" where
  \<comment> \<open>\<open>str.strip()\<close>: white space removed at both ends\<close>
  "strip s = rev (dropWhile is_space (rev (dropWhile is_space s)))"

fun contains :: "string \<Rightarrow> string \<Rightarrow> bool" where
  \<comment> \<open>\<open>sub in s\<close>\<close>
  "contains sub [] = (sub = [])"
| "contains sub (c # cs) = (prefix sub (c # cs) \<or> contains sub cs)"

text \<open>
  The patterns of the service that are a literal (or one of several literals) followed by
  a non-empty greedy run of one character class, \<open>(?:l1|l2|...)([cls]+)\<close>.
  \<open>re.search\<close> tries the start positions from the left and at each one the
  alternatives in order; the run is maximal, and giving characters of it back cannot
  help, since nothing follows it in the pattern. The result is the literal that matched
  and the run.
\<close>

fun re_match_here :: "string list \<Rightarrow> (char \<Rightarrow> bool) \<Rightarrow> string \<Rightarrow> (string \<times> string) option" where
  "re_match_here [] cls s = None"
| "re_match_here (l # ls) cls s =
     (if prefix l s \<and> takeWhile cls (drop (length l) s) \<noteq> []
      then Some (l, takeWhile cls (drop (length l) s))
      else re_match_here ls cls s)"

fun re_search :: "string list \<Rightarrow> (char \<Rightarrow> bool) \<Rightarrow> string \<Rightarrow> (string \<times> string) option" where
  "re_search ls cls [] = None"
| "re_search ls cls (c # cs) =
     (case re_match_here ls cls (c # cs) of
        Some r \<Rightarrow> Some r
      | None \<Rightarrow> re_search ls cls cs)"

section \<open>Errors\<close>

text \<open>The exceptions that leave a function of the service.\<close>

datatype py_error =
    ValueError string
  | OverflowError
  | RequestException
  | HTTPError nat
  | BrowserError

section \<open>Size parsing\<close>

text \<open>
  Python's \<open>float\<close> is an IEEE 754 double. A non-negative double is \<open>m * 2 ^ e\<close> with
  an integer \<open>m\<close>, or infinity. \<open>float(num)\<close> on decimal digits with at most one point
  is the double nearest to the decimal, ties to the even mantissa, with 53 bits of
  mantissa above \<open>2 ^ -1022\<close> and the fixed step \<open>2 ^ -1074\<close> below; a result of
  \<open>2 ^ 1024\<close> or more is infinity. Multiplying a double by 1024 is exact unless it
  overflows, and \<open>int\<close> truncates a finite double and raises on infinity.
\<close>

datatype pyfloat = Fl int int | Infinity

function bit_length :: "int \<Rightarrow> int" where
  "bit_length n = (if n \<le> 0 then 0 else 1 + bit_length (n div 2))"
  by pat_completeness auto
termination
  by (relation "measure nat") auto

declare bit_length.simps [simp del]

definition pow2_le :: "int \<Rightarrow> int \<Rightarrow> int \<Rightarrow> bool" where
  \<comment> \<open>\<open>2 ^ k \<le> a / b\<close>, for \<open>b > 0\<close>\<close>
  "pow2_le k a b = (if 0 \<le> k then 2 ^ nat k * b \<le> a else b \<le> a * 2 ^ nat (- k))"

definition round_half_even :: "int \<Rightarrow> int \<Rightarrow> int" where
  \<comment> \<open>\<open>n / d\<close> rounded to the nearest integer, ties to even, for \<open>d > 0\<close>\<close>
  "round_half_even n d =
     (let q = n div d; r = n mod d
      in if 2 * r < d then q
         else if d < 2 * r then q + 1
         else if even q then q else q + 1)"

definition overflow_check :: "int \<Rightarrow> int \<Rightarrow> pyfloat" where
  "overflow_check m e =
     (if e < 0 then Fl m e
      else if 2 ^ 1024 \<le> m * 2 ^ nat e then Infinity
      else Fl m e)"

definition round_to_double :: "int \<Rightarrow> int \<Rightarrow> pyfloat" where
  \<comment> \<open>the double nearest to \<open>a / b\<close>, for \<open>a \<ge> 0\<close> and \<open>b > 0\<close>\<close>
  "round_to_double a b =
     (if a = 0 then Fl 0 0
      else
        let e0 = bit_length a - bit_length b;
            e1 = (if pow2_le e0 a b then e0 else e0 - 1);
            e = max e1 (- 1022) - 52;
            m = (if e < 0 then round_half_even (a * 2 ^ nat (- e)) b
                 else round_half_even a (b * 2 ^ nat e))
        in overflow_check m e)"

definition digits_value :: "string \<Rightarrow> int" where
  "digits_value ds = foldl (\<lambda>a c. 10 * a + (int (of_char c) - 48)) 0 ds"

definition py_float :: "string \<Rightarrow> pyfloat option" where
  \<comment> \<open>\<open>float(num)\<close> on a string of digits and points; \<open>None\<close> is the \<open>ValueError\<close>\<close>
  "py_float num =
     (if length (filter (\<lambda>c. c = CHR ''.'') num) \<le> 1 \<and> list_ex is_digit num
      then
        let ip = takeWhile (\<lambda>c. c \<noteq> CHR ''.'') num;
            fp = drop 1 (dropWhile (\<lambda>c. c \<noteq> CHR ''.'') num)
        in Some (round_to_double (digits_value (ip @ fp)) (10 ^ length fp))
      else None)"

definition mul1024 :: "pyfloat \<Rightarrow> pyfloat" where
  \<comment> \<open>\<open>val * 1024\<close>\<close>
  "mul1024 v = (case v of Infinity \<Rightarrow> Infinity | Fl m e \<Rightarrow> overflow_check m (e + 10))"

definition py_int :: "pyfloat \<Rightarrow> py_error + int option" where
  \<comment> \<open>\<open>return int(...)\<close>\<close>
  "py_int v =
     (case v of
        Infinity \<Rightarrow> Inl OverflowError
      | Fl m e \<Rightarrow> Inr (Some (if 0 \<le> e then m * 2 ^ nat e else m div 2 ^ nat (- e))))"

text \<open>
  \<open>re.search(r'([\d\.,]+)\s*(GB|MB|KB|B)', text, flags=re.IGNORECASE)\<close>. At a start
  position the number is the longest run of \<open>[\d\.,]\<close> and the white space the longest
  run of \<open>\s\<close>: a shorter number is followed by a character of the number class, a
  shorter white space by a white space, and neither starts a unit, so backtracking
  finds no other match. The unit alternatives are tried in the order written.
\<close>

definition match_unit :: "string \<Rightarrow> string option" where
  "match_unit s =
     (if map ascii_upper (take 2 s) = ''GB'' then Some (take 2 s)
      else if map ascii_upper (take 2 s) = ''MB'' then Some (take 2 s)
      else if map ascii_upper (take 2 s) = ''KB'' then Some (take 2 s)
      else if map ascii_upper (take 1 s) = ''B'' then Some (take 1 s)
      else None)"

definition size_match_here :: "string \<Rightarrow> (string \<times> string) option" where
  "size_match_here s =
     (if takeWhile is_numchar s = [] then None
      else (case match_unit (dropWhile is_space (dropWhile is_numchar s)) of
              None \<Rightarrow> None
            | Some u \<Rightarrow> Some (takeWhile is_numchar s, u)))"

fun re_search_size :: "string \<Rightarrow> (string \<times> string) option" where
  "re_search_size [] = None"
| "re_search_size (c # cs) =
     (case size_match_here (c # cs) of
        Some r \<Rightarrow> Some r
      | None \<Rightarrow> re_search_size cs)"

definition parse_size_from_text :: "string \<Rightarrow> py_error + int option" where
  "parse_size_from_text text =
     (if text = [] then Inr None
      else (case re_search_size text of
              None \<Rightarrow> Inr None
            | Some (g1, g2) \<Rightarrow>
                (let num = filter (\<lambda>c. c \<noteq> CHR '','') g1;
                     unit = map ascii_upper g2
                 in case py_float num of
                      None \<Rightarrow> Inr None
                    | Some val \<Rightarrow>
                        if unit = ''B'' then py_int val
                        else if unit = ''KB'' then py_int (mul1024 val)
                        else if unit = ''MB'' then py_int (mul1024 (mul1024 val))
                        else if unit = ''GB'' then py_int (mul1024 (mul1024 (mul1024 val)))
                        else Inr None)))"

section \<open>Link classification\<close>

text \<open>
  \<open>links\<close> is a Python dict: insertion ordered, and an assignment to a key that is
  present keeps the key's place. That is \<^const>\<open>AList.update\<close> on an association
  list. A value is \<open>None\<close> where Python stores \<open>None\<close> (the browser path can).
\<close>

type_synonym links = "(string \<times> string option) list"

text \<open>An anchor \<open>a.btn\<close> of a parsed page: its stripped text and its \<open>href\<close> attribute.\<close>

type_synonym anchor = "string \<times> string option"

definition pixel_rewrite :: "string \<Rightarrow> string" where
  \<comment> \<open>\<open>re.search(r'/u/([A-Za-z0-9]+)', href)\<close> and the canonical download URL\<close>
  "pixel_rewrite href =
     (case re_search [''/u/''] is_alnum href of
        Some (l, tok) \<Rightarrow> ''https://pixeldrain.com/api/file/'' @ tok @ ''?download''
      | None \<Rightarrow> href)"

fun lazy_until :: "string \<Rightarrow> string \<Rightarrow> string option" where
  \<comment> \<open>\<open>.*?lit\<close> matched at the start of the string: what is left after the match.
      \<open>.\<close> does not match a line feed.\<close>
  "lazy_until lit [] = (if lit = [] then Some [] else None)"
| "lazy_until lit (c # cs) =
     (if prefix lit (c # cs) then Some (drop (length lit) (c # cs))
      else if c = CHR 0x0A then None
      else lazy_until lit cs)"

lemma lazy_until_length: "lazy_until lit s = Some r \<Longrightarrow> length r \<le> length s"
  by (induction s) (auto split: if_splits)

function amp_sub :: "string \<Rightarrow> string" where
  \<comment> \<open>\<open>re.sub(r'https://.*?ampproject\.org/c/s/', 'https://', href)\<close>: every match,
      left to right, without overlap\<close>
  "amp_sub [] = []"
| "amp_sub (c # cs) =
     (if prefix ''https://'' (c # cs)
      then (case lazy_until ''ampproject.org/c/s/'' (drop 8 (c # cs)) of
              Some rest \<Rightarrow> ''https://'' @ amp_sub rest
            | None \<Rightarrow> c # amp_sub cs)
      else c # amp_sub cs)"
  by pat_completeness auto
termination
proof (relation "measure length")
  show "wf (measure (length :: string \<Rightarrow> nat))" by simp
next
  fix c :: char and cs rest :: string
  assume "lazy_until ''ampproject.org/c/s/'' (drop 8 (c # cs)) = Some rest"
  then have "length rest \<le> length (drop 8 (c # cs))" by (rule lazy_until_length)
  then show "(rest, c # cs) \<in> measure length" by simp
qed simp_all

definition amp_strip :: "string \<Rightarrow> string" where
  \<comment> \<open>\<open>if "ampproject.org" in href: href = re.sub(...)\<close>\<close>
  "amp_strip href = (if contains ''ampproject.org'' href then amp_sub href else href)"

definition tme_class_requests :: "char \<Rightarrow> bool" where
  \<comment> \<open>the class \<open>[^\s"\']\<close>\<close>
  "tme_class_requests c = (\<not> is_space c \<and> c \<noteq> CHR 0x22 \<and> c \<noteq> CHR 0x27)"

definition tme_class_browser :: "char \<Rightarrow> bool" where
  \<comment> \<open>the class \<open>[^\s]\<close>\<close>
  "tme_class_browser c = (\<not> is_space c)"

definition telegram_requests :: "string \<Rightarrow> string" where
  "telegram_requests href =
     (let h = amp_strip href
      in case re_search [''https://t.me/''] tme_class_requests h of
           Some (l, run) \<Rightarrow> l @ run
         | None \<Rightarrow> h)"

definition telegram_browser :: "string \<Rightarrow> string" where
  "telegram_browser href =
     (let h = amp_strip href
      in if \<not> prefix ''https://t.me/'' h
         then (case re_search [''https://t.me/''] tme_class_browser h of
                 Some (l, run) \<Rightarrow> l @ run
               | None \<Rightarrow> h)
         else h)"

definition classify_requests :: "string \<Rightarrow> string \<Rightarrow> (string \<times> string option) option" where
  \<comment> \<open>the body of the loop of \<open>extract_links_requests\<close> on an anchor with a non-empty
      href: the key assigned and the value stored, or \<open>None\<close> when no branch is taken\<close>
  "classify_requests text href =
     (if contains ''FSLv2'' text then Some (''FSLv2'', Some href)
      else if contains ''FSL Server'' text \<or> (contains ''FSL'' text \<and> \<not> contains ''FSLv2'' text)
        then Some (''FSL'', Some href)
      else if contains ''10Gbps'' text then Some (''10Gbps'', Some href)
      else if contains ''PixelServer'' text then Some (''PixelServer'', Some (pixel_rewrite href))
      else if contains ''Telegram'' text then Some (''Telegram'', Some (telegram_requests href))
      else None)"

fun links_loop_requests :: "links \<Rightarrow> anchor list \<Rightarrow> links" where
  "links_loop_requests links [] = links"
| "links_loop_requests links ((text, h) # as) =
     (let href = (case h of None \<Rightarrow> [] | Some x \<Rightarrow> x)
      in if href = [] then links_loop_requests links as
         else (case classify_requests text href of
                 None \<Rightarrow> links_loop_requests links as
               | Some (k, v) \<Rightarrow> links_loop_requests (AList.update k v links) as))"

text \<open>
  The second page that the browser path opens for a \<open>10Gbps\<close> button: the navigation
  raises, or the element \<open>a#vd\<close> does not appear (or is gone when queried), or it is
  there with its \<open>href\<close> attribute (\<open>None\<close> when the attribute is absent).
\<close>

datatype page2 = Page2NavError | Page2NoVd | Page2Vd "string option"

definition resolve_10gbps :: "page2 \<Rightarrow> string \<Rightarrow> string option option" where
  \<comment> \<open>outer \<open>None\<close>: the exception of the navigation leaves the function\<close>
  "resolve_10gbps p href =
     (case p of
        Page2NavError \<Rightarrow> None
      | Page2NoVd \<Rightarrow> Some (Some href)
      | Page2Vd a \<Rightarrow> Some a)"

definition classify_browser ::
  "(string \<Rightarrow> page2) \<Rightarrow> string \<Rightarrow> string \<Rightarrow> (string \<times> string option) option option" where
  \<comment> \<open>the body of the loop of \<open>extract_buttons_with_browser\<close> on an anchor with a
      non-empty href; outer \<open>None\<close> when an exception leaves the loop\<close>
  "classify_browser second text href =
     (if contains ''FSLv2'' text then Some (Some (''FSLv2'', Some href))
      else if contains ''FSL Server'' text then Some (Some (''FSL'', Some href))
      else if contains ''10Gbps'' text
        then (case resolve_10gbps (second href) href of
                None \<Rightarrow> None
              | Some v \<Rightarrow> Some (Some (''10Gbps'', v)))
      else if contains ''PixelServer'' text
        then Some (Some (''PixelServer'', Some (pixel_rewrite href)))
      else if contains ''Telegram'' text
        then Some (Some (''Telegram'', Some (telegram_browser href)))
      else Some None)"

fun links_loop_browser :: "(string \<Rightarrow> page2) \<Rightarrow> links \<Rightarrow> anchor list \<Rightarrow> links option" where
  "links_loop_browser second links [] = Some links"
| "links_loop_browser second links ((text, h) # as) =
     (case h of
        None \<Rightarrow> links_loop_browser second links as
      | Some href \<Rightarrow>
          if href = [] then links_loop_browser second links as
          else (case classify_browser second text href of
                  None \<Rightarrow> None
                | Some None \<Rightarrow> links_loop_browser second links as
                | Some (Some (k, v)) \<Rightarrow> links_loop_browser second (AList.update k v links) as))"

section \<open>Decoding the token of an intermediate URL\<close>

text \<open>
  \<open>base64.b64decode\<close> with its default \<open>validate=False\<close> is
  \<open>binascii.a2b_base64\<close> in its lenient mode: characters outside the alphabet are
  skipped; a \<open>=\<close> counts as padding only when at least two characters of the current
  group of four have been read, and the padding that completes the group ends the
  decoding; input that ends inside a group is an error (\<open>None\<close>). The state is the
  position in the group, the bits left over, and the pads seen; bytes are numbers below
  256.
\<close>

definition b64_value :: "char \<Rightarrow> nat option" where
  "b64_value c =
     (if is_upper c then Some (of_char c - 65)
      else if is_lower c then Some (of_char c - 71)
      else if is_digit c then Some (of_char c + 4)
      else if c = CHR ''+'' then Some 62
      else if c = CHR ''/'' then Some 63
      else None)"

fun a2b_base64 :: "nat \<Rightarrow> nat \<Rightarrow> nat \<Rightarrow> string \<Rightarrow> nat list \<Rightarrow> nat list option" where
  "a2b_base64 quad_pos leftchar pads [] out = (if quad_pos \<noteq> 0 then None else Some out)"
| "a2b_base64 quad_pos leftchar pads (c # cs) out =
     (if c = CHR ''='' then
        (if 2 \<le> quad_pos \<and> 4 \<le> quad_pos + (pads + 1) then Some out
         else a2b_base64 quad_pos leftchar (if 2 \<le> quad_pos then pads + 1 else pads) cs out)
      else (case b64_value c of
              None \<Rightarrow> a2b_base64 quad_pos leftchar pads cs out
            | Some v \<Rightarrow>
                if quad_pos = 0 then a2b_base64 1 v 0 cs out
                else if quad_pos = 1
                  then a2b_base64 2 (v mod 16) 0 cs (out @ [leftchar * 4 + v div 16])
                else if quad_pos = 2
                  then a2b_base64 3 (v mod 4) 0 cs (out @ [leftchar * 16 + v div 4])
                else a2b_base64 0 0 0 cs (out @ [leftchar * 64 + v])))"

definition b64decode :: "string \<Rightarrow> nat list option" where
  "b64decode s = a2b_base64 0 0 0 s []"

text \<open>
  \<open>bytes.decode("utf-8", errors="ignore")\<close>: well-formed sequences give their code
  point; a byte that cannot start a sequence is dropped, and so is the valid beginning
  of a sequence that the next byte (or the end of the input) does not continue, the
  decoding resuming at that byte. The second byte is restricted after \<open>E0\<close>, \<open>ED\<close>,
  \<open>F0\<close> and \<open>F4\<close> (no overlong forms, no surrogates, nothing above U+10FFFF).
\<close>

definition is_cont :: "nat \<Rightarrow> bool" where
  "is_cont b = (128 \<le> b \<and> b \<le> 191)"

definition second_ok :: "nat \<Rightarrow> nat \<Rightarrow> bool" where
  "second_ok b c =
     (if b = 224 then 160 \<le> c \<and> c \<le> 191
      else if b = 237 then 128 \<le> c \<and> c \<le> 159
      else if b = 240 then 144 \<le> c \<and> c \<le> 191
      else if b = 244 then 128 \<le> c \<and> c \<le> 143
      else is_cont c)"

fun utf8_ignore :: "nat list \<Rightarrow> nat list" where
  "utf8_ignore [] = []"
| "utf8_ignore (b # bs) =
     (if b < 128 then b # utf8_ignore bs
      else if 194 \<le> b \<and> b \<le> 223 then
        (case bs of
           [] \<Rightarrow> []
         | c # r \<Rightarrow>
             if is_cont c then ((b - 192) * 64 + (c - 128)) # utf8_ignore r
             else utf8_ignore (c # r))
      else if 224 \<le> b \<and> b \<le> 239 then
        (case bs of
           [] \<Rightarrow> []
         | c # r \<Rightarrow>
             if second_ok b c then
               (case r of
                  [] \<Rightarrow> []
                | d # r' \<Rightarrow>
                    if is_cont d
                    then ((b - 224) * 4096 + (c - 128) * 64 + (d - 128)) # utf8_ignore r'
                    else utf8_ignore (d # r'))
             else utf8_ignore (c # r))
      else if 240 \<le> b \<and> b \<le> 244 then
        (case bs of
           [] \<Rightarrow> []
         | c # r \<Rightarrow>
             if second_ok b c then
               (case r of
                  [] \<Rightarrow> []
                | d # r' \<Rightarrow>
                    if is_cont d then
                      (case r' of
                         [] \<Rightarrow> []
                       | e # r'' \<Rightarrow>
                           if is_cont e
                           then ((b - 240) * 262144 + (c - 128) * 4096 + (d - 128) * 64 + (e - 128))
                                  # utf8_ignore r''
                           else utf8_ignore (e # r''))
                    else utf8_ignore (d # r'))
             else utf8_ignore (c # r))
      else utf8_ignore bs)"

definition codepoints :: "string \<Rightarrow> nat list" where
  \<comment> \<open>a \<open>str\<close> of the service as code points\<close>
  "codepoints s = map of_char s"

function pad4 :: "string \<Rightarrow> string" where
  \<comment> \<open>\<open>while len(encoded) % 4 != 0: encoded += "="\<close>\<close>
  "pad4 encoded = (if length encoded mod 4 \<noteq> 0 then pad4 (encoded @ ''='') else encoded)"
  by pat_completeness auto
termination
proof (relation "measure (\<lambda>s. (4 - length s mod 4) mod 4)")
  show "wf (measure (\<lambda>s::string. (4 - length s mod 4) mod 4))" by simp
next
  fix encoded :: string
  assume a: "length encoded mod 4 \<noteq> 0"
  define m where "m = length encoded mod 4"
  have "m < 4" by (simp add: m_def)
  with a consider "m = 1" | "m = 2" | "m = 3" unfolding m_def [symmetric] by arith
  then have "(4 - Suc (length encoded) mod 4) mod 4 < (4 - m) mod 4"
    by cases (simp_all add: mod_Suc m_def [symmetric])
  then show "(encoded @ ''='', encoded) \<in> measure (\<lambda>s. (4 - length s mod 4) mod 4)"
    by (simp add: m_def)
qed

declare pad4.simps [simp del]

text \<open>
  \<open>re.search(r'(?:/foo/|/re2/|[?&]r=|id=)([A-Za-z0-9+/=]+)', href)\<close>. The token has
  no \<open>%\<close>, so \<open>urllib.parse.unquote\<close> returns it unchanged, and it is ASCII, so
  \<open>b64decode\<close> accepts it as a \<open>str\<close>. The result is text and may hold any code
  point; an href returned as it is keeps its characters.
\<close>

definition normalize_telegram :: "string option \<Rightarrow> nat list option" where
  "normalize_telegram href =
     (case href of
        None \<Rightarrow> None
      | Some h \<Rightarrow>
          if h = [] then None
          else (case re_search [''/foo/'', ''/re2/'', ''?r='', ''&r='', ''id=''] is_b64char h of
                  Some (l, tok) \<Rightarrow>
                    (case b64decode (pad4 tok) of
                       Some decoded \<Rightarrow> Some (utf8_ignore decoded)
                     | None \<Rightarrow> Some (codepoints h))
                | None \<Rightarrow> Some (codepoints h)))"

section \<open>The extraction pipeline\<close>

text \<open>
  The world outside the process is a record of answers: what each HTTP request and each
  browser page would return for a URL (\<open>None\<close>: the call raises), whether the cache
  file can be written, and whether the browser engine can be started. A page is given
  as the HTML parser shows it to the code: the texts that the selectors find and the
  anchors \<open>a.btn\<close> in document order.
\<close>

record head_response =
  hr_content_type :: "string option"
  hr_content_length :: "string option"
  hr_status :: nat

record meta_page =
  mp_status :: nat
  mp_card_header :: "string option"
  mp_title :: "string option"
  mp_li1 :: "string option"
  mp_li2 :: "string option"

record links_page =
  lp_status :: nat
  lp_anchors :: "anchor list"

datatype buttons_page = NavError | NoButtons | Buttons "anchor list"

record env =
  net_head :: "string \<Rightarrow> head_response option"
  net_get_meta :: "string \<Rightarrow> meta_page option"
  net_get_links :: "string \<Rightarrow> links_page option"
  net_get_redirect :: "string \<Rightarrow> (string \<times> string) option"
  disk_writable :: bool
  engine_start_ok :: bool
  browser_buttons :: "string \<Rightarrow> buttons_page"
  browser_second :: "string \<Rightarrow> page2"
  browser_resolve :: "string \<Rightarrow> (string \<times> string) option"

text \<open>The cache entry of a URL, and the three dictionaries the probes return.\<close>

record meta_info =
  m_url :: string
  m_title :: string
  m_content_type :: "string option"
  m_content_length :: "string option"

record entry =
  e_meta :: meta_info
  e_links :: links
  e_resolved :: "nat list list"

record head_dict =
  content_type :: "string option"
  content_length :: "string option"
  status_code :: "string option"

record extracted =
  title :: string
  file_size :: string
  file_type :: string

text \<open>
  What goes out of the process is recorded in order: every HTTP request, every start of
  the engine, every page the browser opens (the first page of the browser path stands
  for the second pages it opens as well).
\<close>

datatype event =
    HeadRequest string
  | GetMetadata string
  | GetLinks string
  | GetRedirect string
  | EngineStart
  | BrowserButtons string
  | BrowserResolve string

text \<open>
  The state of the process and of its disk: the cache file (\<open>None\<close> when it is missing
  or does not parse), the \<open>started\<close> flag of \<open>_playwright_state\<close>, the number of
  browser instances launched so far, and the record of activity.
\<close>

record state =
  cache_file :: "(string \<rightharpoonup> entry) option"
  started :: bool
  engines :: nat
  activity :: "event list"

definition emit :: "event \<Rightarrow> state \<Rightarrow> state" where
  "emit ev st = st\<lparr>activity := activity st @ [ev]\<rparr>"

definition load_cache :: "state \<Rightarrow> (string \<rightharpoonup> entry)" where
  "load_cache st = (case cache_file st of None \<Rightarrow> Map.empty | Some c \<Rightarrow> c)"

definition save_cache :: "env \<Rightarrow> (string \<rightharpoonup> entry) \<Rightarrow> state \<Rightarrow> state" where
  "save_cache ev cache st = (if disk_writable ev then st\<lparr>cache_file := Some cache\<rparr> else st)"

definition py_or :: "string option \<Rightarrow> string option \<Rightarrow> string option" where
  \<comment> \<open>\<open>a or b\<close> on optional strings: \<open>None\<close> and the empty string are false\<close>
  "py_or a b = (case a of None \<Rightarrow> b | Some x \<Rightarrow> if x = [] then b else Some x)"

definition or_empty :: "string option \<Rightarrow> string" where
  \<comment> \<open>\<open>a or ""\<close>\<close>
  "or_empty a = (case a of None \<Rightarrow> [] | Some x \<Rightarrow> x)"

definition raise_for_status :: "nat \<Rightarrow> bool" where
  \<comment> \<open>\<open>resp.raise_for_status()\<close> raises on a status from 400 to 599\<close>
  "raise_for_status code = (400 \<le> code \<and> code < 600)"

function str_digits :: "int \<Rightarrow> string" where
  \<comment> \<open>the decimal digits of a non-negative integer\<close>
  "str_digits n =
     (if n < 10 then [char_of (48 + n)] else str_digits (n div 10) @ [char_of (48 + n mod 10)])"
  by pat_completeness auto
termination
  by (relation "measure nat") auto

declare str_digits.simps [simp del]

definition str_int :: "int \<Rightarrow> string" where
  \<comment> \<open>\<open>str(n)\<close> on an \<open>int\<close>\<close>
  "str_int i = (if i < 0 then CHR ''-'' # str_digits (- i) else str_digits i)"

definition head_request :: "env \<Rightarrow> string \<Rightarrow> state \<Rightarrow> head_dict \<times> state" where
  "head_request ev url st =
     (case net_head ev url of
        Some resp \<Rightarrow>
          (\<lparr>content_type = hr_content_type resp, content_length = hr_content_length resp,
            status_code = Some (str_int (int (hr_status resp)))\<rparr>,
           emit (HeadRequest url) st)
      | None \<Rightarrow>
          (\<lparr>content_type = None, content_length = None, status_code = None\<rparr>,
           emit (HeadRequest url) st))"

definition extract_metadata :: "env \<Rightarrow> string \<Rightarrow> state \<Rightarrow> (py_error + extracted) \<times> state" where
  "extract_metadata ev url st =
     (case net_get_meta ev url of
        None \<Rightarrow> (Inl RequestException, emit (GetMetadata url) st)
      | Some page \<Rightarrow>
          if raise_for_status (mp_status page)
          then (Inl (HTTPError (mp_status page)), emit (GetMetadata url) st)
          else (Inr \<lparr>title = or_empty (py_or (mp_card_header page) (mp_title page)),
                      file_size = or_empty (mp_li1 page),
                      file_type = or_empty (mp_li2 page)\<rparr>,
                emit (GetMetadata url) st))"

definition extract_links_requests :: "env \<Rightarrow> string \<Rightarrow> state \<Rightarrow> links \<times> state" where
  "extract_links_requests ev url st =
     (case net_get_links ev url of
        None \<Rightarrow> ([], emit (GetLinks url) st)
      | Some page \<Rightarrow>
          if raise_for_status (lp_status page) then ([], emit (GetLinks url) st)
          else (links_loop_requests [] (lp_anchors page), emit (GetLinks url) st))"

definition gamerxyt_in_body :: "string \<Rightarrow> string option" where
  \<comment> \<open>\<open>re.search(r'https://gamerxyt\.com/\?r=[A-Za-z0-9+/=]+', text)\<close>, group 0\<close>
  "gamerxyt_in_body body =
     (case re_search [''https://gamerxyt.com/?r=''] is_b64char body of
        Some (l, run) \<Rightarrow> Some (l @ run)
      | None \<Rightarrow> None)"

definition get_gamerxyt_requests :: "env \<Rightarrow> string \<Rightarrow> state \<Rightarrow> string option \<times> state" where
  "get_gamerxyt_requests ev start_url st =
     (case net_get_redirect ev start_url of
        None \<Rightarrow> (None, emit (GetRedirect start_url) st)
      | Some (final, body) \<Rightarrow>
          if contains ''gamerxyt.com/?r='' final then (Some final, emit (GetRedirect start_url) st)
          else (gamerxyt_in_body body, emit (GetRedirect start_url) st))"

definition ensure_playwright_started :: "env \<Rightarrow> state \<Rightarrow> (py_error + unit) \<times> state" where
  "ensure_playwright_started ev st =
     (if started st then (Inr (), st)
      else if engine_start_ok ev
        then (Inr (), (emit EngineStart st)\<lparr>started := True, engines := engines st + 1\<rparr>)
      else (Inl BrowserError, emit EngineStart st))"

definition extract_buttons_with_browser :: "env \<Rightarrow> string \<Rightarrow> state \<Rightarrow> (py_error + links) \<times> state" where
  "extract_buttons_with_browser ev start_url st =
     (case ensure_playwright_started ev st of
        (Inl e, st1) \<Rightarrow> (Inl e, st1)
      | (Inr u, st1) \<Rightarrow>
          (case browser_buttons ev start_url of
             NavError \<Rightarrow> (Inl BrowserError, emit (BrowserButtons start_url) st1)
           | NoButtons \<Rightarrow> (Inr [], emit (BrowserButtons start_url) st1)
           | Buttons as \<Rightarrow>
               (case links_loop_browser (browser_second ev) [] as of
                  None \<Rightarrow> (Inl BrowserError, emit (BrowserButtons start_url) st1)
                | Some ls \<Rightarrow> (Inr ls, emit (BrowserButtons start_url) st1))))"

definition get_gamerxyt_with_browser ::
  "env \<Rightarrow> string \<Rightarrow> state \<Rightarrow> (py_error + string option) \<times> state" where
  "get_gamerxyt_with_browser ev start_url st =
     (case ensure_playwright_started ev st of
        (Inl e, st1) \<Rightarrow> (Inl e, st1)
      | (Inr u, st1) \<Rightarrow>
          (case browser_resolve ev (amp_strip start_url) of
             None \<Rightarrow> (Inr None, emit (BrowserResolve (amp_strip start_url)) st1)
           | Some (current, html) \<Rightarrow>
               if contains ''gamerxyt.com/?r='' current
               then (Inr (Some current), emit (BrowserResolve (amp_strip start_url)) st1)
               else (Inr (gamerxyt_in_body html), emit (BrowserResolve (amp_strip start_url)) st1)))"

definition falsy :: "string option \<Rightarrow> bool" where
  \<comment> \<open>\<open>not x\<close> on an optional string\<close>
  "falsy x = (x = None \<or> x = Some [])"

definition is_indirect :: "string \<Rightarrow> bool" where
  \<comment> \<open>\<open>any(x in link_url for x in ("ampproject.org", "bloggingvector.shop/foo/", "gamerxyt.com"))\<close>\<close>
  "is_indirect link_url =
     (contains ''ampproject.org'' link_url \<or> contains ''bloggingvector.shop/foo/'' link_url
      \<or> contains ''gamerxyt.com'' link_url)"

definition resolve_one :: "env \<Rightarrow> string \<Rightarrow> state \<Rightarrow> nat list option \<times> state" where
  \<comment> \<open>the body of the resolution loop on a link that has an indirection marker\<close>
  "resolve_one ev link_url st =
     (case get_gamerxyt_requests ev link_url st of
        (gamerxyt, st1) \<Rightarrow>
          if falsy gamerxyt \<and> started st1
          then (case get_gamerxyt_with_browser ev link_url st1 of
                  (Inl e, st2) \<Rightarrow> (normalize_telegram None, st2)
                | (Inr g, st2) \<Rightarrow> (normalize_telegram g, st2))
          else (normalize_telegram gamerxyt, st1))"

fun resolve_links :: "env \<Rightarrow> links \<Rightarrow> nat list list \<Rightarrow> state \<Rightarrow> nat list list \<times> state" where
  "resolve_links ev [] resolved_list st = (resolved_list, st)"
| "resolve_links ev ((label, link_url) # rest) resolved_list st =
     (if falsy link_url then resolve_links ev rest resolved_list st
      else if is_indirect (or_empty link_url)
        then (case resolve_one ev (or_empty link_url) st of
                (hubcloud, st1) \<Rightarrow>
                  (case hubcloud of
                     None \<Rightarrow> resolve_links ev rest resolved_list st1
                   | Some h \<Rightarrow>
                       if h = [] then resolve_links ev rest resolved_list st1
                       else resolve_links ev rest (resolved_list @ [h]) st1))
      else resolve_links ev rest resolved_list st)"

definition browser_fallback :: "env \<Rightarrow> string \<Rightarrow> links \<Rightarrow> state \<Rightarrow> links \<times> state" where
  \<comment> \<open>\<open>if not links: try: ... except Exception: log(...)\<close>\<close>
  "browser_fallback ev url links st =
     (if links = []
      then (case extract_buttons_with_browser ev url st of
              (Inl e, st1) \<Rightarrow> (links, st1)
            | (Inr pl_links, st1) \<Rightarrow> (if pl_links \<noteq> [] then pl_links else links, st1))
      else (links, st))"

definition assemble :: "string \<Rightarrow> head_dict \<Rightarrow> extracted \<Rightarrow> links \<Rightarrow> nat list list \<Rightarrow> py_error + entry" where
  \<comment> \<open>from \<open>title = ...\<close> to \<open>entry = ...\<close>\<close>
  "assemble url head ex links resolved_list =
     (case (if file_size ex \<noteq> [] then parse_size_from_text (file_size ex) else Inr None) of
        Inl e \<Rightarrow> Inl e
      | Inr size_bytes \<Rightarrow>
          Inr \<lparr>e_meta =
                 \<lparr>m_url = url,
                  m_title = title ex,
                  m_content_type = py_or (content_type head) (Some (file_type ex)),
                  m_content_length =
                    (if \<not> falsy (content_length head) then content_length head
                     else (case size_bytes of Some n \<Rightarrow> Some (str_int n) | None \<Rightarrow> None))\<rparr>,
               e_links = links,
               e_resolved = resolved_list\<rparr>)"

definition fresh_extract ::
  "env \<Rightarrow> string \<Rightarrow> (string \<rightharpoonup> entry) \<Rightarrow> state \<Rightarrow> (py_error + string \<times> entry) \<times> state" where
  \<comment> \<open>\<open>process_single_url\<close> after the cache lookup. The three probes run in threads and
      all of them run; \<open>asyncio.gather\<close> raises what a probe raised.\<close>
  "fresh_extract ev url cache st =
     (case head_request ev url st of
        (head, st1) \<Rightarrow>
     (case extract_metadata ev url st1 of
        (meta_result, st2) \<Rightarrow>
     (case extract_links_requests ev url st2 of
        (links0, st3) \<Rightarrow>
     (case meta_result of
        Inl e \<Rightarrow> (Inl e, st3)
      | Inr ex \<Rightarrow>
     (case browser_fallback ev url links0 st3 of
        (links, st4) \<Rightarrow>
     (case resolve_links ev links [] st4 of
        (resolved_list, st5) \<Rightarrow>
     (case assemble url head ex links resolved_list of
        Inl e \<Rightarrow> (Inl e, st5)
      | Inr ent \<Rightarrow> (Inr (url, ent), save_cache ev (cache(url \<mapsto> ent)) st5))))))))"

definition process_single_url ::
  "env \<Rightarrow> string \<Rightarrow> bool \<Rightarrow> state \<Rightarrow> (py_error + string \<times> entry) \<times> state" where
  "process_single_url ev url0 force_refresh st =
     (let url = strip url0
      in if url = [] then (Inl (ValueError ''Empty URL''), st)
         else (case (if force_refresh then None else load_cache st url) of
                 Some ent \<Rightarrow> (Inr (url, ent), st)
               | None \<Rightarrow> fresh_extract ev url (load_cache st) st))"

section \<open>Example worlds\<close>

text \<open>
  A world in which the page answers the metadata request with status 404 and every
  other request normally, and a fresh process: no cache file, the engine not started.
\<close>

definition env_meta_404 :: env where
  "env_meta_404 =
     \<lparr>net_head = (\<lambda>u. Some \<lparr>hr_content_type = Some ''text/html'', hr_content_length = None,
                             hr_status = 200\<rparr>),
      net_get_meta = (\<lambda>u. Some \<lparr>mp_status = 404, mp_card_header = None, mp_title = None,
                                 mp_li1 = None, mp_li2 = None\<rparr>),
      net_get_links = (\<lambda>u. Some \<lparr>lp_status = 200,
                                  lp_anchors = [(''Download [FSL Server]'', Some ''https://fsl.example/f'')]\<rparr>),
      net_get_redirect = (\<lambda>u. None),
      disk_writable = True,
      engine_start_ok = True,
      browser_buttons = (\<lambda>u. NoButtons),
      browser_second = (\<lambda>u. Page2NoVd),
      browser_resolve = (\<lambda>u. None)\<rparr>"

definition state0 :: state where
  "state0 = \<lparr>cache_file = None, started = False, engines = 0, activity = []\<rparr>"

section \<open>Observing the resolution step\<close>

text \<open>
  A step is quiet when it leaves the engine and the cache file as they were and adds
  to the record of activity no start of the engine and, if the engine was not started,
  nothing but redirect requests.
\<close>

fun is_get_redirect :: "event \<Rightarrow> bool" where
  "is_get_redirect (GetRedirect u) = True"
| "is_get_redirect e = False"

definition quiet_step :: "state \<Rightarrow> state \<Rightarrow> bool" where
  "quiet_step st st' =
     (started st' = started st \<and> engines st' = engines st \<and> cache_file st' = cache_file st
      \<and> (\<exists>new. activity st' = activity st @ new \<and> EngineStart \<notin> set new
            \<and> (started st \<or> list_all is_get_redirect new)))"

section \<open>A world in which everything answers\<close>

text \<open>
  The page has three buttons; the Telegram button points at the intermediate
  redirector, which answers without redirecting. \<open>links_ok\<close>, \<open>entry_ok\<close> and
  \<open>state_after_ok\<close> are what the pipeline makes of it from a fresh process.
\<close>

definition env_ok :: env where
  "env_ok =
     \<lparr>net_head = (\<lambda>u. Some \<lparr>hr_content_type = Some ''text/html'', hr_content_length = None,
                             hr_status = 200\<rparr>),
      net_get_meta = (\<lambda>u. Some \<lparr>mp_status = 200, mp_card_header = Some ''Movie.2160p.mkv'',
                                 mp_title = Some ''HubCloud'', mp_li1 = Some ''1.5 GB'',
                                 mp_li2 = Some ''video/x-matroska''\<rparr>),
      net_get_links = (\<lambda>u. Some \<lparr>lp_status = 200,
                                  lp_anchors =
                                    [(''Download [FSLv2 Server]'', Some ''https://fsl.example/f''),
                                     (''Download [PixelServer : 2]'', Some ''https://pixel.example/u/AbC123''),
                                     (''Telegram'', Some ''https://gamerxyt.com/?r=aHR0cHM6Ly90Lm1lL2NoYW5uZWwvMTIz'')]\<rparr>),
      net_get_redirect = (\<lambda>u. Some (u, [])),
      disk_writable = True,
      engine_start_ok = True,
      browser_buttons = (\<lambda>u. NoButtons),
      browser_second = (\<lambda>u. Page2NoVd),
      browser_resolve = (\<lambda>u. None)\<rparr>"

definition links_ok :: links where
  "links_ok = [(''FSLv2'', Some ''https://fsl.example/f''),
               (''PixelServer'', Some ''https://pixeldrain.com/api/file/AbC123?download''),
               (''Telegram'', Some ''https://gamerxyt.com/?r=aHR0cHM6Ly90Lm1lL2NoYW5uZWwvMTIz'')]"

definition entry_ok :: entry where
  "entry_ok =
     \<lparr>e_meta = \<lparr>m_url = ''https://hubcloud.example/drive/abc'', m_title = ''Movie.2160p.mkv'',
                 m_content_type = Some ''text/html'', m_content_length = Some ''1610612736''\<rparr>,
      e_links = links_ok,
      e_resolved = [codepoints ''https://t.me/channel/123'']\<rparr>"

definition state_after_ok :: state where
  "state_after_ok =
     \<lparr>cache_file = Some [''https://hubcloud.example/drive/abc'' \<mapsto> entry_ok],
      started = False, engines = 0,
      activity = [HeadRequest ''https://hubcloud.example/drive/abc'',
                  GetMetadata ''https://hubcloud.example/drive/abc'',
                  GetLinks ''https://hubcloud.example/drive/abc'',
                  GetRedirect ''https://gamerxyt.com/?r=aHR0cHM6Ly90Lm1lL2NoYW5uZWwvMTIz'']\<rparr>"

section \<open>The edge proxy\<close>

text \<open>
  \<open>api/proxy.py\<close> and \<open>api/api_proxy.py\<close> are the same program but for the name of the
  compute service (\<open>Railway\<close>, \<open>Render\<close>) in the configuration variable and in the
  message. What a call to the compute tier gives is a response, with its status and its
  body, or an exception of \<open>httpx\<close>. A body is seen through \<open>r.json()\<close> and
  \<open>JSONResponse\<close>: \<open>r.json()\<close> raises on it; or \<open>r.json()\<close> parses it but the value
  holds \<open>NaN\<close> or an infinity, which \<open>JSONResponse\<close> refuses to render and raises
  \<open>ValueError\<close>; or it is JSON that \<open>JSONResponse\<close> renders.
\<close>

datatype 'j body = NoJson | NotCompliant | Json 'j

datatype 'j upstream =
    Response int "'j body"
  | ConnectError
  | ReadTimeout
  | OtherFailure

record service =
  svc_name :: string
  svc_variable :: string

definition railway :: service where
  "railway = \<lparr>svc_name = ''Railway'', svc_variable = ''RAILWAY_SERVICE_URL''\<rparr>"

definition render :: service where
  "render = \<lparr>svc_name = ''Render'', svc_variable = ''RENDER_SERVICE_URL''\<rparr>"

record config =
  SERVICE_URL :: "string option"
  SUGGESTED_RETRY_AFTER :: int
  MAX_BLOCK_WAIT :: int

text \<open>
  The answers of the compute tier: to the first forward, to the wake call (its outcome
  is ignored), to the \<open>i\<close>-th health poll, and to the extraction request issued again
  at the \<open>i\<close>-th poll.
\<close>

record 'j proxy_env =
  fast_forward :: "'j upstream"
  wake :: "'j upstream"
  health_poll :: "nat \<Rightarrow> 'j upstream"
  retry_forward :: "nat \<Rightarrow> 'j upstream"

datatype 'j content = Relayed 'j | Waking string

record 'j response =
  resp_status :: int
  resp_content :: "'j content"
  resp_headers :: "(string \<times> string) list"

datatype proxy_error = HTTPException int string | Unhandled

definition relay :: "int \<Rightarrow> 'j \<Rightarrow> 'j response" where
  \<comment> \<open>\<open>JSONResponse(status_code=..., content=r.json())\<close> on a body that it renders\<close>
  "relay code json = \<lparr>resp_status = code, resp_content = Relayed json, resp_headers = []\<rparr>"

definition waking :: "service \<Rightarrow> config \<Rightarrow> 'j response" where
  "waking svc cfg =
     \<lparr>resp_status = 202,
      resp_content = Waking (svc_name svc @ '' is starting. Retry after ''
                              @ str_int (SUGGESTED_RETRY_AFTER cfg) @ '' seconds.''),
      resp_headers = [(''Retry-After'', str_int (SUGGESTED_RETRY_AFTER cfg))]\<rparr>"

definition poll_once :: "'j proxy_env \<Rightarrow> nat \<Rightarrow> 'j response option" where
  \<comment> \<open>the \<open>try\<close> block of the loop: \<open>Some\<close> is its \<open>return\<close>, \<open>None\<close> falls through to
      the next round: an unhealthy answer, or any exception, which is passed over, that
      of \<open>r3.json()\<close> and that of \<open>JSONResponse\<close> included\<close>
  "poll_once pe i =
     (case health_poll pe i of
        Response code b \<Rightarrow>
          if code = 200 then
            (case retry_forward pe i of
               Response code3 b3 \<Rightarrow>
                 (case b3 of
                    Json json \<Rightarrow> Some (relay code3 json)
                  | NoJson \<Rightarrow> None
                  | NotCompliant \<Rightarrow> None)
             | ConnectError \<Rightarrow> None
             | ReadTimeout \<Rightarrow> None
             | OtherFailure \<Rightarrow> None)
          else None
      | ConnectError \<Rightarrow> None
      | ReadTimeout \<Rightarrow> None
      | OtherFailure \<Rightarrow> None)"

function poll :: "'j proxy_env \<Rightarrow> int \<Rightarrow> int \<Rightarrow> nat \<Rightarrow> 'j response option" where
  \<comment> \<open>the \<open>while\<close> loop with \<open>interval = 2\<close>; \<open>None\<close> when it ends without a \<open>return\<close>\<close>
  "poll pe max_wait total_waited i =
     (if total_waited < max_wait then
        (case poll_once pe i of
           Some r \<Rightarrow> Some r
         | None \<Rightarrow> poll pe max_wait (total_waited + 2) (i + 1))
      else None)"
  by pat_completeness auto
termination
  by (relation "measure (\<lambda>(pe, max_wait, total_waited, i). nat (max_wait - total_waited))") auto

declare poll.simps [simp del]

definition after_wake :: "service \<Rightarrow> config \<Rightarrow> 'j proxy_env \<Rightarrow> bool \<Rightarrow> 'j response" where
  \<comment> \<open>from \<open>if wait:\<close> to the end of \<open>proxy_get\<close>; the wake call before it cannot raise\<close>
  "after_wake svc cfg pe wait =
     (if wait
      then (case poll pe (MAX_BLOCK_WAIT cfg) 0 0 of
              Some r \<Rightarrow> r
            | None \<Rightarrow> waking svc cfg)
      else waking svc cfg)"

definition proxy_get ::
  "service \<Rightarrow> config \<Rightarrow> 'j proxy_env \<Rightarrow> string option \<Rightarrow> bool \<Rightarrow> bool \<Rightarrow> proxy_error + 'j response" where
  \<comment> \<open>only \<open>httpx.ConnectError\<close> and \<open>httpx.ReadTimeout\<close> of the first forward are caught;
      \<open>JSONResponse(status_code=200, content=r.json())\<close> of a 200 answer is not guarded\<close>
  "proxy_get svc cfg pe url force wait =
     (if falsy (SERVICE_URL cfg) then Inl (HTTPException 500 (svc_variable svc @ '' not configured''))
      else if falsy url
        then Inl (HTTPException 400 (''Missing '' @ [CHR 0x27] @ ''url'' @ [CHR 0x27] @ '' query parameter''))
      else (case fast_forward pe of
              OtherFailure \<Rightarrow> Inl Unhandled
            | ConnectError \<Rightarrow> Inr (after_wake svc cfg pe wait)
            | ReadTimeout \<Rightarrow> Inr (after_wake svc cfg pe wait)
            | Response code b \<Rightarrow>
                if code = 200
                then (case b of
                        Json json \<Rightarrow> Inr (relay 200 json)
                      | NoJson \<Rightarrow> Inl Unhandled
                      | NotCompliant \<Rightarrow> Inl Unhandled)
                else Inr (after_wake svc cfg pe wait)))"

text \<open>
  Example configurations and compute tiers: the defaults of the two environment
  variables; a tier that is cold at first, then healthy, and answers the extraction
  request issued again with status 500; one whose first forward fails with an exception
  other than the two that are caught; a warm one; an unreachable one; one that is
  healthy from the third poll on, whose extraction request issued again times out at
  that poll and answers at the next.
\<close>

definition config_default :: config where
  "config_default = \<lparr>SERVICE_URL = Some ''https://compute.example'', SUGGESTED_RETRY_AFTER = 30,
                      MAX_BLOCK_WAIT = 20\<rparr>"

definition env_cold_then_500 :: "string proxy_env" where
  "env_cold_then_500 =
     \<lparr>fast_forward = Response 503 (Json ''sleeping''),
      wake = Response 202 (Json ''waking''),
      health_poll = (\<lambda>i. Response 200 (Json ''ready'')),
      retry_forward = (\<lambda>i. Response 500 (Json ''Internal Server Error''))\<rparr>"

definition env_connect_timeout :: "string proxy_env" where
  "env_connect_timeout =
     \<lparr>fast_forward = OtherFailure,
      wake = OtherFailure,
      health_poll = (\<lambda>i. OtherFailure),
      retry_forward = (\<lambda>i. OtherFailure)\<rparr>"

definition env_warm :: "string proxy_env" where
  "env_warm =
     \<lparr>fast_forward = Response 200 (Json ''entry''),
      wake = Response 202 (Json ''waking''),
      health_poll = (\<lambda>i. Response 200 (Json ''ready'')),
      retry_forward = (\<lambda>i. Response 200 (Json ''entry''))\<rparr>"

definition env_unreachable :: "string proxy_env" where
  "env_unreachable =
     \<lparr>fast_forward = ReadTimeout,
      wake = ConnectError,
      health_poll = (\<lambda>i. ConnectError),
      retry_forward = (\<lambda>i. ConnectError)\<rparr>"

definition env_wakes :: "string proxy_env" where
  "env_wakes =
     \<lparr>fast_forward = Response 503 (Json ''sleeping''),
      wake = Response 202 (Json ''waking''),
      health_poll = (\<lambda>i. if i < 2 then Response 503 (Json ''sleeping'') else Response 200 (Json ''ready'')),
      retry_forward = (\<lambda>i. if i < 3 then ReadTimeout else Response 200 (Json ''entry''))\<rparr>"

definition relayable :: "'j proxy_env \<Rightarrow> nat \<Rightarrow> bool" where
  \<comment> \<open>the poll is healthy and the extraction request issued again at it returns a
      response with a body that can be relayed\<close>
  "relayable pe i =
     (case health_poll pe i of
        Response code b \<Rightarrow>
          code = 200
          \<and> (case retry_forward pe i of
                Response code3 b3 \<Rightarrow>
                  (case b3 of Json json \<Rightarrow> True | NoJson \<Rightarrow> False | NotCompliant \<Rightarrow> False)
              | ConnectError \<Rightarrow> False
              | ReadTimeout \<Rightarrow> False
              | OtherFailure \<Rightarrow> False)
      | ConnectError \<Rightarrow> False
      | ReadTimeout \<Rightarrow> False
      | OtherFailure \<Rightarrow> False)"

section \<open>Concurrent callers of the engine start\<close>

text \<open>
  The handlers are coroutines of one event loop: one runs at a time, and another runs
  only when the running one suspends at an \<open>await\<close>. \<open>ensure_playwright_started\<close>
  reads the flag, then awaits the start of the driver, then awaits the launch of the
  browser, then writes the driver, the browser and the flag. A caller is at one of
  these points; resuming it runs it to its next suspension. A schedule lists which
  caller the loop resumes next.
\<close>

datatype caller = AtCheck | AwaitingStart | AwaitingLaunch | Returned

record engine =
  flag_started :: bool
  drivers :: nat
  browsers :: nat

definition resume :: "engine \<Rightarrow> caller \<Rightarrow> engine \<times> caller" where
  "resume e c =
     (case c of
        AtCheck \<Rightarrow> if flag_started e then (e, Returned) else (e, AwaitingStart)
      | AwaitingStart \<Rightarrow> (e\<lparr>drivers := drivers e + 1\<rparr>, AwaitingLaunch)
      | AwaitingLaunch \<Rightarrow> (e\<lparr>flag_started := True, browsers := browsers e + 1\<rparr>, Returned)
      | Returned \<Rightarrow> (e, Returned))"

fun run_schedule :: "nat list \<Rightarrow> engine \<times> caller list \<Rightarrow> engine \<times> caller list" where
  "run_schedule [] s = s"
| "run_schedule (i # sched) (e, cs) =
     (if i < length cs
      then (case resume e (cs ! i) of (e', c') \<Rightarrow> run_schedule sched (e', cs[i := c']))
      else run_schedule sched (e, cs))"

definition engine0 :: engine where
  "engine0 = \<lparr>flag_started = False, drivers = 0, browsers = 0\<rparr>"

section \<open>Auxiliary notions for the proofs\<close>

text \<open>
  A double that holds an integer exactly, and the letters a unit can start with.
\<close>

definition exact_int :: "pyfloat \<Rightarrow> int \<Rightarrow> bool" where
  "exact_int v n =
     (case v of
        Infinity \<Rightarrow> False
      | Fl m e \<Rightarrow> if 0 \<le> e then m * 2 ^ nat e = n else m = n * 2 ^ nat (- e))"

definition is_unit_letter :: "char \<Rightarrow> bool" where
  "is_unit_letter c = (ascii_upper c \<in> {CHR ''G'', CHR ''M'', CHR ''K'', CHR ''B''})"

section \<open>Properties of the classification\<close>

lemma contains_prefix_mono: "prefix a b \<Longrightarrow> contains b t \<Longrightarrow> contains a t"
proof (induction t)
  case Nil
  then show ?case by auto
next
  case (Cons c cs)
  from Cons.prems(2) have "prefix b (c # cs) \<or> contains b cs" by simp
  then show ?case
  proof
    assume "prefix b (c # cs)"
    with Cons.prems(1) have "prefix a (c # cs)" by (rule prefix_order.trans)
    then show ?thesis by simp
  next
    assume "contains b cs"
    with Cons have "contains a cs" by blast
    then show ?thesis by simp
  qed
qed

lemma FSL_of_FSLv2: "contains ''FSLv2'' t \<Longrightarrow> contains ''FSL'' t"
  by (rule contains_prefix_mono [of "''FSL''" "''FSLv2''"]) simp_all

lemma FSL_of_FSL_Server: "contains ''FSL Server'' t \<Longrightarrow> contains ''FSL'' t"
  by (rule contains_prefix_mono [of "''FSL''" "''FSL Server''"]) simp_all

lemma label_requests:
  "map_option fst (classify_requests txt href) =
     (if contains ''FSLv2'' txt then Some ''FSLv2''
      else if contains ''FSL'' txt then Some ''FSL''
      else if contains ''10Gbps'' txt then Some ''10Gbps''
      else if contains ''PixelServer'' txt then Some ''PixelServer''
      else if contains ''Telegram'' txt then Some ''Telegram''
      else None)"
  using FSL_of_FSL_Server [of "txt"] by (auto simp: classify_requests_def)

lemma label_browser:
  "map_option (map_option fst) (classify_browser second txt href) =
     (if contains ''FSLv2'' txt then Some (Some ''FSLv2'')
      else if contains ''FSL Server'' txt then Some (Some ''FSL'')
      else if contains ''10Gbps'' txt
        then (if second href = Page2NavError then None else Some (Some ''10Gbps''))
      else if contains ''PixelServer'' txt then Some (Some ''PixelServer'')
      else if contains ''Telegram'' txt then Some (Some ''Telegram'')
      else Some None)"
  by (auto simp: classify_browser_def resolve_10gbps_def split: page2.splits)



section \<open>Properties of size parsing\<close>

lemma ascii_upper_B: "ascii_upper c = CHR ''B'' \<longleftrightarrow> c = CHR ''B'' \<or> c = CHR ''b''"
proof (cases "is_lower c")
  case False
  then show ?thesis by (auto simp: ascii_upper_def is_lower_def)
next
  case True
  then have r: "97 \<le> (of_char c :: nat)" "(of_char c :: nat) \<le> 122"
    by (simp_all add: is_lower_def)
  have "ascii_upper c = CHR ''B'' \<longleftrightarrow> (of_char (ascii_upper c) :: nat) = of_char CHR ''B''"
    by (simp only: of_char_eq_iff)
  also have "\<dots> \<longleftrightarrow> (of_char c :: nat) - 32 = 66"
    using True r by (simp add: ascii_upper_def)
  also have "\<dots> \<longleftrightarrow> (of_char c :: nat) = of_char CHR ''b''"
    using r by auto
  also have "\<dots> \<longleftrightarrow> c = CHR ''b''"
    by (simp only: of_char_eq_iff)
  finally show ?thesis using True by (auto simp: is_lower_def)
qed

lemma match_unit_no_b:
  assumes "\<forall>c\<in>set s. c \<noteq> CHR ''B'' \<and> c \<noteq> CHR ''b''"
  shows "match_unit s = None"
proof (cases s)
  case Nil
  then show ?thesis by (simp add: match_unit_def)
next
  case (Cons a t)
  note s1 = Cons
  have a: "ascii_upper a \<noteq> CHR ''B''" using assms s1 by (simp add: ascii_upper_B)
  show ?thesis
  proof (cases t)
    case Nil
    then show ?thesis using a s1 by (simp add: match_unit_def)
  next
    case (Cons b t')
    have b: "ascii_upper b \<noteq> CHR ''B''" using assms s1 Cons by (simp add: ascii_upper_B)
    show ?thesis using a b s1 Cons by (simp add: match_unit_def)
  qed
qed

lemma size_match_here_no_b:
  assumes "\<forall>c\<in>set s. c \<noteq> CHR ''B'' \<and> c \<noteq> CHR ''b''"
  shows "size_match_here s = None"
proof -
  have "set (dropWhile is_space (dropWhile is_numchar s)) \<subseteq> set s"
    by (meson set_dropWhileD subsetI)
  with assms have "match_unit (dropWhile is_space (dropWhile is_numchar s)) = None"
    by (intro match_unit_no_b) blast
  then show ?thesis by (simp add: size_match_here_def)
qed

lemma re_search_size_no_b:
  "\<forall>c\<in>set s. c \<noteq> CHR ''B'' \<and> c \<noteq> CHR ''b'' \<Longrightarrow> re_search_size s = None"
proof (induction s)
  case Nil
  then show ?case by simp
next
  case (Cons a s)
  then have "size_match_here (a # s) = None" by (intro size_match_here_no_b)
  with Cons show ?case by simp
qed

lemma re_search_size_no_num:
  "\<forall>c\<in>set s. \<not> is_numchar c \<Longrightarrow> re_search_size s = None"
  by (induction s) (simp_all add: size_match_here_def)

lemma bit_length_bounds:
  "0 < a \<Longrightarrow> 1 \<le> bit_length a \<and> 2 ^ nat (bit_length a - 1) \<le> a \<and> a < 2 ^ nat (bit_length a)"
proof (induction a rule: bit_length.induct)
  case (1 n)
  show ?case
  proof (cases "n = 1")
    case True
    have "bit_length 1 = 1" by (simp add: bit_length.simps [of 1] bit_length.simps [of 0])
    with True show ?thesis by simp
  next
    case False
    with "1.prems" have pos: "0 < n div 2" by simp
    from "1.prems" have nle: "\<not> n \<le> 0" by simp
    note ih = "1.IH" [OF nle pos]
    have bl: "bit_length n = 1 + bit_length (n div 2)"
      using nle by (simp add: bit_length.simps [of n])
    define k where "k = nat (bit_length (n div 2) - 1)"
    have k: "nat (bit_length (n div 2)) = Suc k" unfolding k_def using ih by arith
    have lo: "(2::int) ^ k \<le> n div 2" using ih by (simp add: k_def)
    have hi: "n div 2 < 2 ^ Suc k" using ih k by simp
    have n1: "nat (bit_length n - 1) = Suc k" using bl k by simp
    have n2: "nat (bit_length n) = Suc (Suc k)" using bl k ih by simp
    have "2 * (n div 2) \<le> n" by simp
    with lo have a: "(2::int) ^ Suc k \<le> n" by simp
    have "n < 2 * (n div 2) + 2" by presburger
    with hi have b: "n < 2 ^ Suc (Suc k)" by simp
    show ?thesis using a b bl ih n1 n2 by simp
  qed
qed

lemma round_half_even_1: "round_half_even n 1 = n"
  by (simp add: round_half_even_def)

lemma round_to_double_exact:
  assumes "0 \<le> a" and "a < 2 ^ 53"
  shows "exact_int (round_to_double a 1) a"
proof (cases "a = 0")
  case True
  then show ?thesis by (simp add: round_to_double_def exact_int_def)
next
  case False
  with assms have pos: "0 < a" by simp
  note b = bit_length_bounds [OF pos]
  have b1: "bit_length 1 = 1" by (simp add: bit_length.simps [of 1] bit_length.simps [of 0])
  define e0 where "e0 = bit_length a - 1"
  have e0: "0 \<le> e0" using b by (simp add: e0_def)
  have "(2::int) ^ nat e0 < 2 ^ 53" using b assms by (simp add: e0_def)
  then have "nat e0 < 53" using power_less_imp_less_exp [of "2::int" "nat e0" 53] by simp
  then have e52: "e0 \<le> 52" by simp
  have p: "pow2_le e0 a 1" using b e0 by (simp add: pow2_le_def e0_def)
  have mx: "max e0 (- 1022) = e0" using e0 by simp
  show ?thesis
  proof (cases "e0 = 52")
    case True
    have "\<not> (2::int) ^ 1024 \<le> a" using assms by simp
    then show ?thesis
      using False p b1 True
      by (simp add: round_to_double_def e0_def [symmetric] Let_def round_half_even_1
          overflow_check_def exact_int_def)
  next
    case f: False
    with e52 have "e0 - 52 < 0" by simp
    then show ?thesis
      using False p b1 mx
      by (simp add: round_to_double_def e0_def [symmetric] Let_def round_half_even_1
          overflow_check_def exact_int_def)
  qed
qed

lemma mul1024_exact:
  assumes "exact_int v n" and "0 \<le> n" and "n * 1024 < 2 ^ 1024"
  shows "exact_int (mul1024 v) (n * 1024)"
proof (cases v)
  case Infinity
  with assms show ?thesis by (simp add: exact_int_def)
next
  case (Fl m e)
  show ?thesis
  proof (cases "e + 10 < 0")
    case True
    then have "nat (- e) = nat (- (e + 10)) + 10" by simp
    then have "(2::int) ^ nat (- e) = 2 ^ nat (- (e + 10)) * 1024" by (simp add: power_add)
    with assms Fl True show ?thesis
      by (simp add: exact_int_def mul1024_def overflow_check_def)
  next
    case False
    have val: "m * 2 ^ nat (e + 10) = n * 1024"
    proof (cases "0 \<le> e")
      case True
      then have "nat (e + 10) = nat e + 10" by simp
      then have "(2::int) ^ nat (e + 10) = 2 ^ nat e * 1024" by (simp add: power_add)
      with assms Fl True show ?thesis by (simp add: exact_int_def)
    next
      case f: False
      with False have "nat (- e) + nat (e + 10) = 10" by simp
      then have "(2::int) ^ nat (- e) * 2 ^ nat (e + 10) = 1024"
        by (simp add: power_add [symmetric])
      moreover from assms Fl f have "m = n * 2 ^ nat (- e)" by (simp add: exact_int_def)
      ultimately show ?thesis by (simp add: mult.assoc)
    qed
    with assms have "\<not> 2 ^ 1024 \<le> m * 2 ^ nat (e + 10)" by simp
    with False Fl val show ?thesis
      by (simp add: exact_int_def mul1024_def overflow_check_def)
  qed
qed

lemma py_int_exact:
  assumes "exact_int v n"
  shows "py_int v = Inr (Some n)"
proof (cases v)
  case Infinity
  with assms show ?thesis by (simp add: exact_int_def)
next
  case (Fl m e)
  with assms show ?thesis by (simp add: exact_int_def py_int_def)
qed

lemma numchar_not_space: "is_numchar c \<Longrightarrow> \<not> is_space c"
  by (auto simp: is_numchar_def is_space_def is_digit_def)

lemma upper_fix_numchar: "is_numchar c \<Longrightarrow> ascii_upper c = c"
  by (auto simp: is_numchar_def is_digit_def ascii_upper_def is_lower_def)

lemma upper_fix_space: "is_space c \<Longrightarrow> ascii_upper c = c"
  by (auto simp: is_space_def ascii_upper_def is_lower_def)

lemma unit_letter_not_numchar: "is_unit_letter c \<Longrightarrow> \<not> is_numchar c"
proof
  assume u: "is_unit_letter c" and n: "is_numchar c"
  from n have "ascii_upper c = c" by (rule upper_fix_numchar)
  with u have "c \<in> {CHR ''G'', CHR ''M'', CHR ''K'', CHR ''B''}" by (simp add: is_unit_letter_def)
  with n show False by (auto simp: is_numchar_def is_digit_def)
qed

lemma unit_letter_not_space: "is_unit_letter c \<Longrightarrow> \<not> is_space c"
proof
  assume u: "is_unit_letter c" and n: "is_space c"
  from n have "ascii_upper c = c" by (rule upper_fix_space)
  with u have "c \<in> {CHR ''G'', CHR ''M'', CHR ''K'', CHR ''B''}" by (simp add: is_unit_letter_def)
  with n show False by (auto simp: is_space_def)
qed

lemma size_match_here_shape:
  assumes num: "num \<noteq> []" "\<forall>c\<in>set num. is_numchar c"
    and ws: "\<forall>c\<in>set ws. is_space c"
    and u: "is_unit_letter a" "match_unit ((a # u') @ rest) = Some (a # u')"
  shows "size_match_here (num @ ws @ (a # u') @ rest) = Some (num, a # u')"
proof -
  have t0: "takeWhile is_numchar (ws @ (a # u') @ rest) = []"
    using ws u(1) by (cases ws) (auto simp: numchar_not_space unit_letter_not_numchar)
  have t: "takeWhile is_numchar (num @ ws @ (a # u') @ rest) = num"
    using num(2) t0 by (simp add: takeWhile_append2)
  have d0: "dropWhile is_numchar (ws @ (a # u') @ rest) = ws @ (a # u') @ rest"
    using t0 by (metis takeWhile_dropWhile_id append_Nil)
  have d: "dropWhile is_numchar (num @ ws @ (a # u') @ rest) = ws @ (a # u') @ rest"
    using num(2) d0 by (simp add: dropWhile_append2)
  have s: "dropWhile is_space (ws @ (a # u') @ rest) = (a # u') @ rest"
    using ws u(1) by (simp add: dropWhile_append2 unit_letter_not_space)
  show ?thesis using num(1) t d s u(2) by (simp add: size_match_here_def)
qed

lemma re_search_size_shape:
  assumes "num \<noteq> []" "\<forall>c\<in>set num. is_numchar c" "\<forall>c\<in>set ws. is_space c"
    "is_unit_letter a" "match_unit ((a # u') @ rest) = Some (a # u')"
  shows "re_search_size (num @ ws @ (a # u') @ rest) = Some (num, a # u')"
proof -
  from assms(1) obtain c cs where n: "num = c # cs" by (cases num) auto
  have "size_match_here (num @ ws @ (a # u') @ rest) = Some (num, a # u')"
    using assms by (rule size_match_here_shape)
  then show ?thesis unfolding n by simp
qed

lemma match_unit_B: "ascii_upper a = CHR ''B'' \<Longrightarrow> match_unit ([a] @ rest) = Some [a]"
  by (cases rest) (simp_all add: match_unit_def)

lemma match_unit_2:
  "map ascii_upper [a, b] = U \<Longrightarrow> U \<in> {''GB'', ''MB'', ''KB''} \<Longrightarrow> match_unit ([a, b] @ rest) = Some [a, b]"
  by (auto simp: match_unit_def)

lemma digits_value_nonneg_aux:
  "0 \<le> a \<Longrightarrow> \<forall>c\<in>set ds. is_digit c \<Longrightarrow> 0 \<le> foldl (\<lambda>a c. 10 * a + (int (of_char c) - 48)) a ds"
proof (induction ds arbitrary: a)
  case Nil
  then show ?case by simp
next
  case (Cons d ds)
  from Cons.prems have "0 \<le> 10 * a + (int (of_char d) - 48)" by (simp add: is_digit_def)
  with Cons show ?case by simp
qed

lemma digits_value_nonneg: "\<forall>c\<in>set ds. is_digit c \<Longrightarrow> 0 \<le> digits_value ds"
  unfolding digits_value_def by (rule digits_value_nonneg_aux) simp_all

lemma py_float_digits:
  assumes "\<forall>c\<in>set ds. is_digit c" and "ds \<noteq> []"
  shows "py_float ds = Some (round_to_double (digits_value ds) 1)"
proof -
  have nd: "\<forall>c\<in>set ds. c \<noteq> CHR ''.''" using assms(1) by (auto simp: is_digit_def)
  then have f: "filter (\<lambda>c. c = CHR ''.'') ds = []" by (simp add: filter_empty_conv)
  from nd have t: "takeWhile (\<lambda>c. c \<noteq> CHR ''.'') ds = ds" by (simp add: takeWhile_eq_all_conv)
  from nd have d: "dropWhile (\<lambda>c. c \<noteq> CHR ''.'') ds = []" by simp
  from assms have e: "list_ex is_digit ds" by (cases ds) (simp_all add: list_ex_iff)
  show ?thesis unfolding py_float_def f t d using e by simp
qed

lemma parse_size_integer:
  assumes num: "\<forall>c\<in>set num. is_digit c \<or> c = CHR '',''" "list_ex is_digit num"
    and n: "digits_value (filter (\<lambda>c. c \<noteq> CHR '','') num) < 2 ^ 53"
    and ws: "\<forall>c\<in>set ws. is_space c"
    and u: "(map ascii_upper u, k) \<in> {(''B'', 0), (''KB'', 1), (''MB'', 2), (''GB'', 3::nat)}"
  shows "parse_size_from_text (num @ ws @ u @ rest)
           = Inr (Some (digits_value (filter (\<lambda>c. c \<noteq> CHR '','') num) * 1024 ^ k))"
proof -
  define ds where "ds = filter (\<lambda>c. c \<noteq> CHR '','') num"
  define v where "v = round_to_double (digits_value ds) 1"
  have dig: "\<forall>c\<in>set ds. is_digit c" using num(1) by (auto simp: ds_def)
  from num(2) obtain d where "d \<in> set num" "is_digit d" by (auto simp: list_ex_iff)
  then have "d \<in> set ds" by (auto simp: ds_def is_digit_def)
  then have ne: "ds \<noteq> []" by auto
  have pf: "py_float ds = Some v" unfolding v_def using dig ne by (rule py_float_digits)
  have n0: "0 \<le> digits_value ds" using dig by (rule digits_value_nonneg)
  have n53: "digits_value ds < 2 ^ 53" using n by (simp add: ds_def)
  have x0: "exact_int v (digits_value ds)" unfolding v_def using n0 n53 by (rule round_to_double_exact)
  have x1: "exact_int (mul1024 v) (digits_value ds * 1024)"
    using mul1024_exact [OF x0] n0 n53 by simp
  have x2: "exact_int (mul1024 (mul1024 v)) (digits_value ds * 1024 * 1024)"
    using mul1024_exact [OF x1] n0 n53 by simp
  have x3: "exact_int (mul1024 (mul1024 (mul1024 v))) (digits_value ds * 1024 * 1024 * 1024)"
    using mul1024_exact [OF x2] n0 n53 by simp
  have nn: "num \<noteq> []" using num(2) by auto
  have nc: "\<forall>c\<in>set num. is_numchar c" using num(1) by (auto simp: is_numchar_def)
  from u obtain a u' where ua: "u = a # u'" by (cases u) auto
  have ul: "is_unit_letter a" using u by (auto simp: ua is_unit_letter_def)
  have mu: "match_unit ((a # u') @ rest) = Some (a # u')"
  proof (cases "k = 0")
    case True
    with u have "u' = []" "ascii_upper a = CHR ''B''" by (auto simp: ua)
    then show ?thesis using match_unit_B [of a rest] by simp
  next
    case False
    with u obtain b where b: "u' = [b]" and U: "map ascii_upper [a, b] \<in> {''GB'', ''MB'', ''KB''}"
      by (auto simp: ua)
    show ?thesis unfolding b using match_unit_2 [OF refl U, of rest] by simp
  qed
  have rs: "re_search_size (num @ ws @ u @ rest) = Some (num, u)"
    unfolding ua using nn nc ws ul mu by (rule re_search_size_shape)
  have ne2: "num @ ws @ u @ rest \<noteq> []" using nn by simp
  have res: "parse_size_from_text (num @ ws @ u @ rest) =
        (if map ascii_upper u = ''B'' then py_int v
         else if map ascii_upper u = ''KB'' then py_int (mul1024 v)
         else if map ascii_upper u = ''MB'' then py_int (mul1024 (mul1024 v))
         else if map ascii_upper u = ''GB'' then py_int (mul1024 (mul1024 (mul1024 v)))
         else Inr None)"
    unfolding parse_size_from_text_def using ne2 rs pf by (simp add: ds_def [symmetric] Let_def)
  from u consider "map ascii_upper u = ''B''" "k = 0" | "map ascii_upper u = ''KB''" "k = 1"
    | "map ascii_upper u = ''MB''" "k = 2" | "map ascii_upper u = ''GB''" "k = 3" by auto
  then show ?thesis
  proof cases
    case 1
    then show ?thesis unfolding res ds_def [symmetric] using py_int_exact [OF x0] by simp
  next
    case 2
    then show ?thesis unfolding res ds_def [symmetric] using py_int_exact [OF x1] by simp
  next
    case 3
    then show ?thesis unfolding res ds_def [symmetric] using py_int_exact [OF x2] by simp
  next
    case 4
    then show ?thesis unfolding res ds_def [symmetric] using py_int_exact [OF x3] by simp
  qed
qed

lemma parse_size_no_b:
  "\<forall>c\<in>set t. c \<noteq> CHR ''B'' \<and> c \<noteq> CHR ''b'' \<Longrightarrow> parse_size_from_text t = Inr None"
  by (simp add: parse_size_from_text_def re_search_size_no_b)

lemma parse_size_no_num:
  "\<forall>c\<in>set t. \<not> is_numchar c \<Longrightarrow> parse_size_from_text t = Inr None"
  by (simp add: parse_size_from_text_def re_search_size_no_num)

text \<open>
  Claim C6. \<open>parse_size_from_text\<close> maps \<open>1.5 GB\<close> to 1610612736, \<open>500 KB\<close> to
  512000 and \<open>10B\<close> to 10. A text without the letter \<open>b\<close> (in either case), or
  without a digit, point or comma, has no size and gives \<open>None\<close>. A number written
  with digits and commas (its value below \<open>2 ^ 53\<close>, where doubles are exact),
  followed by any white space and by \<open>B\<close>, \<open>KB\<close>, \<open>MB\<close> or \<open>GB\<close> in any case,
  gives the number times 1, 1024, \<open>1024 ^ 2\<close> or \<open>1024 ^ 3\<close>, the commas dropped; a
  decimal point is accepted as in \<open>1.5 GB\<close>.
\<close>

theorem parse_size_from_text_spec:
  "parse_size_from_text ''1.5 GB'' = Inr (Some 1610612736)
   \<and> parse_size_from_text ''500 KB'' = Inr (Some 512000)
   \<and> parse_size_from_text ''10B'' = Inr (Some 10)
   \<and> parse_size_from_text ''1,024 kb'' = Inr (Some 1048576)
   \<and> ((\<forall>c\<in>set t. c \<noteq> CHR ''B'' \<and> c \<noteq> CHR ''b'') \<longrightarrow> parse_size_from_text t = Inr None)
   \<and> ((\<forall>c\<in>set t. \<not> is_numchar c) \<longrightarrow> parse_size_from_text t = Inr None)
   \<and> ((\<forall>c\<in>set num. is_digit c \<or> c = CHR '','') \<and> list_ex is_digit num
        \<and> digits_value (filter (\<lambda>c. c \<noteq> CHR '','') num) < 2 ^ 53
        \<and> (\<forall>c\<in>set ws. is_space c)
        \<and> (map ascii_upper u, k) \<in> {(''B'', 0), (''KB'', 1), (''MB'', 2), (''GB'', 3::nat)}
      \<longrightarrow> parse_size_from_text (num @ ws @ u @ rest)
           = Inr (Some (digits_value (filter (\<lambda>c. c \<noteq> CHR '','') num) * 1024 ^ k)))"
proof (intro conjI impI)
  show "parse_size_from_text ''1.5 GB'' = Inr (Some 1610612736)" by code_simp
  show "parse_size_from_text ''500 KB'' = Inr (Some 512000)" by code_simp
  show "parse_size_from_text ''10B'' = Inr (Some 10)" by code_simp
  show "parse_size_from_text ''1,024 kb'' = Inr (Some 1048576)" by code_simp
next
  assume "\<forall>c\<in>set t. c \<noteq> CHR ''B'' \<and> c \<noteq> CHR ''b''"
  then show "parse_size_from_text t = Inr None" by (rule parse_size_no_b)
next
  assume "\<forall>c\<in>set t. \<not> is_numchar c"
  then show "parse_size_from_text t = Inr None" by (rule parse_size_no_num)
next
  assume a: "(\<forall>c\<in>set num. is_digit c \<or> c = CHR '','') \<and> list_ex is_digit num
        \<and> digits_value (filter (\<lambda>c. c \<noteq> CHR '','') num) < 2 ^ 53
        \<and> (\<forall>c\<in>set ws. is_space c)
        \<and> (map ascii_upper u, k) \<in> {(''B'', 0), (''KB'', 1), (''MB'', 2), (''GB'', 3::nat)}"
  show "parse_size_from_text (num @ ws @ u @ rest)
           = Inr (Some (digits_value (filter (\<lambda>c. c \<noteq> CHR '','') num) * 1024 ^ k))"
    by (rule parse_size_integer) (use a in blast)+
qed

theorem parse_size_from_text_spec_witness:
  "parse_size_from_text ''n/a'' = Inr None
   \<and> parse_size_from_text (''12,345'' @ [CHR 0x20, CHR 0x09] @ ''mB'' @ ''!'')
       = Inr (Some (12345 * 1024 ^ 2))"
proof -
  note T = parse_size_from_text_spec
             [of "''n/a''" "''12,345''" "[CHR 0x20, CHR 0x09]" "''mB''" 2 "''!''"]
  have h1: "\<forall>c\<in>set ''n/a''. c \<noteq> CHR ''B'' \<and> c \<noteq> CHR ''b''" by simp
  have h2: "\<forall>c\<in>set ''12,345''. is_digit c \<or> c = CHR '',''" by (simp add: is_digit_def)
  have h3: "list_ex is_digit ''12,345''" by (simp add: is_digit_def)
  have h4: "digits_value (filter (\<lambda>c. c \<noteq> CHR '','') ''12,345'') = 12345"
    by (simp add: digits_value_def)
  have h5: "\<forall>c\<in>set [CHR 0x20, CHR 0x09]. is_space c" by (simp add: is_space_def)
  have h6: "(map ascii_upper ''mB'', 2) \<in> {(''B'', 0), (''KB'', 1), (''MB'', 2), (''GB'', 3::nat)}"
    by code_simp
  from T h1 have c1: "parse_size_from_text ''n/a'' = Inr None" by blast
  from T h2 h3 h4 h5 h6
  have c2: "parse_size_from_text (''12,345'' @ [CHR 0x20, CHR 0x09] @ ''mB'' @ ''!'')
       = Inr (Some (12345 * 1024 ^ 2))"
    by simp
  from c1 c2 show ?thesis by (rule conjI)
qed

section \<open>Properties of the token decoding\<close>

lemma pad4_shape:
  "length (pad4 t) mod 4 = 0 \<and> (\<exists>k<4. pad4 t = t @ replicate k CHR ''='')"
proof (induction t rule: pad4.induct)
  case (1 encoded)
  show ?case
  proof (cases "length encoded mod 4 = 0")
    case True
    then have "pad4 encoded = encoded" by (simp add: pad4.simps [of encoded])
    with True show ?thesis by (intro conjI exI [of _ 0]) simp_all
  next
    case False
    then have p: "pad4 encoded = pad4 (encoded @ ''='')" by (simp add: pad4.simps [of encoded])
    from "1.IH" [OF False] have l: "length (pad4 (encoded @ ''='')) mod 4 = 0"
      and ex: "\<exists>k<4. pad4 (encoded @ ''='') = (encoded @ ''='') @ replicate k CHR ''=''"
      by simp_all
    from ex obtain k where k: "k < 4" "pad4 (encoded @ ''='') = (encoded @ ''='') @ replicate k CHR ''=''"
      by auto
    have e: "pad4 encoded = encoded @ replicate (Suc k) CHR ''=''" using p k(2) by simp
    have "Suc k < 4"
    proof (rule ccontr)
      assume "\<not> Suc k < 4"
      with k(1) have "k = 3" by simp
      with l k(2) have "(length encoded + 4) mod 4 = 0" by simp
      with False show False by simp
    qed
    with e l p show ?thesis by (intro conjI exI [of _ "Suc k"]) simp_all
  qed
qed

lemma re_search_gamerxyt_token:
  assumes "tok \<noteq> []" and "\<forall>c\<in>set tok. is_b64char c"
  shows "re_search [''/foo/'', ''/re2/'', ''?r='', ''&r='', ''id=''] is_b64char
           (''https://gamerxyt.com/?r='' @ tok) = Some (''?r='', tok)"
proof -
  have t: "takeWhile is_b64char tok = tok" using assms(2) by (simp add: takeWhile_eq_all_conv)
  show ?thesis using assms(1) by (simp add: t)
qed

lemma normalize_telegram_gamerxyt:
  assumes "tok \<noteq> []" and "\<forall>c\<in>set tok. is_b64char c"
  shows "normalize_telegram (Some (''https://gamerxyt.com/?r='' @ tok))
           = (case b64decode (pad4 tok) of
                Some decoded \<Rightarrow> Some (utf8_ignore decoded)
              | None \<Rightarrow> Some (codepoints (''https://gamerxyt.com/?r='' @ tok)))"
proof -
  have t: "takeWhile is_b64char tok = tok" using assms(2) by (simp add: takeWhile_eq_all_conv)
  show ?thesis using assms(1) by (simp add: normalize_telegram_def t split: option.splits)
qed

section \<open>Properties of the pipeline\<close>

lemma strip_example:
  "strip ''https://hubcloud.example/drive/abc'' = ''https://hubcloud.example/drive/abc''"
  by (simp add: strip_def is_space_def)

text \<open>
  Claim C1. Each of the three probes should fail soft. The head probe and the link probe
  do; the metadata probe does not: \<open>extract_metadata\<close> has no handler, so a status 404
  on its request (or a network error) raises out of \<open>process_single_url\<close>, after all
  three requests were made, and nothing is written to the cache.
\<close>

theorem metadata_probe_raises:
  "process_single_url env_meta_404 ''https://hubcloud.example/drive/abc'' False state0
    = (Inl (HTTPError 404),
       state0\<lparr>activity := [HeadRequest ''https://hubcloud.example/drive/abc'',
                              GetMetadata ''https://hubcloud.example/drive/abc'',
                              GetLinks ''https://hubcloud.example/drive/abc'']\<rparr>)"
  by (simp add: process_single_url_def strip_example load_cache_def state0_def fresh_extract_def
      head_request_def extract_metadata_def extract_links_requests_def env_meta_404_def emit_def
      raise_for_status_def Let_def)

lemma dropWhile_strip: "dropWhile is_space (strip s) = strip s"
proof -
  define d where "d = dropWhile is_space s"
  define x where "x = dropWhile is_space (rev d)"
  have t: "strip s = rev x" by (simp add: strip_def d_def x_def)
  have "rev d = takeWhile is_space (rev d) @ x" by (simp add: x_def)
  then have "d = rev x @ rev (takeWhile is_space (rev d))"
    by (metis rev_append rev_rev_ident)
  then have hd: "rev x \<noteq> [] \<Longrightarrow> hd (rev x) = hd d \<and> d \<noteq> []"
    by (metis hd_append2 append_is_Nil_conv)
  show ?thesis
  proof (cases "rev x = []")
    case True
    then show ?thesis by (simp add: t)
  next
    case False
    with hd have "hd (rev x) = hd d" "d \<noteq> []" by simp_all
    moreover have "\<not> is_space (hd d)" using \<open>d \<noteq> []\<close> unfolding d_def by (rule hd_dropWhile)
    ultimately have "\<not> is_space (hd (rev x))" by simp
    with False show ?thesis unfolding t by (cases "rev x") simp_all
  qed
qed

lemma strip_idem: "strip (strip s) = strip s"
proof -
  have "strip (strip s) = rev (dropWhile is_space (rev (strip s)))"
    unfolding strip_def [of "strip s"] dropWhile_strip ..
  also have "rev (strip s) = dropWhile is_space (rev (dropWhile is_space s))"
    by (simp add: strip_def)
  also have "rev (dropWhile is_space (dropWhile is_space (rev (dropWhile is_space s)))) = strip s"
    by (simp add: strip_def)
  finally show ?thesis .
qed

lemma process_strip: "process_single_url ev (strip u) force st = process_single_url ev u force st"
  by (simp add: process_single_url_def strip_idem)

lemma process_hit:
  assumes "strip u \<noteq> []" and "load_cache st (strip u) = Some ent"
  shows "process_single_url ev u False st = (Inr (strip u, ent), st)"
  using assms by (simp add: process_single_url_def Let_def)

lemma assemble_url: "assemble url head ex links rl = Inr ent \<Longrightarrow> m_url (e_meta ent) = url"
  by (auto simp: assemble_def split: sum.splits)

lemma fresh_extract_result:
  assumes "fresh_extract ev url cache st = (Inr (k, ent), st')"
  shows "k = url \<and> m_url (e_meta ent) = url
         \<and> (disk_writable ev \<longrightarrow> cache_file st' = Some (cache(url \<mapsto> ent)))"
  using assms
  by (auto simp: fresh_extract_def save_cache_def assemble_url split: prod.splits sum.splits)

lemma process_result:
  assumes "process_single_url ev u force st = (Inr (k, ent), st')"
  shows "k = strip u"
    and "load_cache st (strip u) = None \<or> force \<Longrightarrow> m_url (e_meta ent) = strip u"
    and "load_cache st (strip u) = None \<or> force \<Longrightarrow> disk_writable ev \<Longrightarrow> load_cache st' (strip u) = Some ent"
  using assms
  by (auto simp: process_single_url_def Let_def load_cache_def
      split: if_splits option.splits dest!: fresh_extract_result)

lemma quiet_refl: "quiet_step st st"
  by (simp add: quiet_step_def)

lemma quiet_trans: "quiet_step a b \<Longrightarrow> quiet_step b c \<Longrightarrow> quiet_step a c"
  unfolding quiet_step_def by (elim conjE exE) (auto intro!: exI)

lemma get_gamerxyt_requests_quiet:
  "get_gamerxyt_requests ev u st = (g, st1) \<Longrightarrow> quiet_step st st1"
  by (auto simp: get_gamerxyt_requests_def quiet_step_def emit_def split: option.splits if_splits)

lemma get_gamerxyt_with_browser_quiet:
  "started st \<Longrightarrow> get_gamerxyt_with_browser ev u st = (g, st1) \<Longrightarrow> quiet_step st st1"
  by (auto simp: get_gamerxyt_with_browser_def ensure_playwright_started_def quiet_step_def emit_def
      split: option.splits if_splits)

lemma resolve_one_quiet:
  assumes "resolve_one ev u st = (h, st')"
  shows "quiet_step st st'"
proof -
  obtain g st1 where g: "get_gamerxyt_requests ev u st = (g, st1)" by (cases "get_gamerxyt_requests ev u st")
  then have q1: "quiet_step st st1" by (rule get_gamerxyt_requests_quiet)
  show ?thesis
  proof (cases "falsy g \<and> started st1")
    case False
    with assms g have "st' = st1" by (auto simp: resolve_one_def)
    with q1 show ?thesis by simp
  next
    case True
    obtain r st2 where b: "get_gamerxyt_with_browser ev u st1 = (r, st2)"
      by (cases "get_gamerxyt_with_browser ev u st1")
    with True have q2: "quiet_step st1 st2" by (intro get_gamerxyt_with_browser_quiet) auto
    from assms g True b have "st' = st2" by (auto simp: resolve_one_def split: sum.splits)
    with q1 q2 show ?thesis by (auto intro: quiet_trans)
  qed
qed

lemma resolve_links_quiet:
  "resolve_links ev ls acc st = (r, st') \<Longrightarrow> quiet_step st st'"
proof (induction ls arbitrary: acc st)
  case Nil
  then show ?case by (simp add: quiet_refl)
next
  case (Cons a ls)
  obtain label link_url where a: "a = (label, link_url)" by (cases a)
  show ?case
  proof (cases "\<not> falsy link_url \<and> is_indirect (or_empty link_url)")
    case False
    with Cons.prems a have "resolve_links ev ls acc st = (r, st')" by (auto split: if_splits)
    then show ?thesis by (rule Cons.IH)
  next
    case True
    obtain h st1 where o: "resolve_one ev (or_empty link_url) st = (h, st1)"
      by (cases "resolve_one ev (or_empty link_url) st")
    then have q1: "quiet_step st st1" by (rule resolve_one_quiet)
    from Cons.prems a True o obtain acc' where "resolve_links ev ls acc' st1 = (r, st')"
      by (auto split: option.splits if_splits)
    then have "quiet_step st1 st'" by (rule Cons.IH)
    with q1 show ?thesis by (rule quiet_trans)
  qed
qed

lemma strip_example_ws:
  "strip ''  https://hubcloud.example/drive/abc '' = ''https://hubcloud.example/drive/abc''"
  by (simp add: strip_def is_space_def)

lemma ok_telegram:
  "telegram_requests ''https://gamerxyt.com/?r=aHR0cHM6Ly90Lm1lL2NoYW5uZWwvMTIz''
     = ''https://gamerxyt.com/?r=aHR0cHM6Ly90Lm1lL2NoYW5uZWwvMTIz''"
  by (simp add: telegram_requests_def amp_strip_def)

lemma ok_links_loop:
  "links_loop_requests []
     [(''Download [FSLv2 Server]'', Some ''https://fsl.example/f''),
      (''Download [PixelServer : 2]'', Some ''https://pixel.example/u/AbC123''),
      (''Telegram'', Some ''https://gamerxyt.com/?r=aHR0cHM6Ly90Lm1lL2NoYW5uZWwvMTIz'')] = links_ok"
  by (simp add: classify_requests_def pixel_rewrite_def is_alnum_def is_upper_def is_lower_def
      is_digit_def ok_telegram links_ok_def)

lemma ok_head:
  "head_request env_ok url st
     = (\<lparr>content_type = Some ''text/html'', content_length = None, status_code = Some (str_int 200)\<rparr>,
        emit (HeadRequest url) st)"
  by (simp add: head_request_def env_ok_def)

lemma ok_meta:
  "extract_metadata env_ok url st
     = (Inr \<lparr>title = ''Movie.2160p.mkv'', file_size = ''1.5 GB'', file_type = ''video/x-matroska''\<rparr>,
        emit (GetMetadata url) st)"
  by (simp add: extract_metadata_def env_ok_def raise_for_status_def py_or_def or_empty_def)

lemma ok_links: "extract_links_requests env_ok url st = (links_ok, emit (GetLinks url) st)"
  by (simp add: extract_links_requests_def env_ok_def raise_for_status_def ok_links_loop
      del: links_loop_requests.simps)

lemma ok_fallback: "browser_fallback env_ok url links_ok st = (links_ok, st)"
  by (simp add: browser_fallback_def links_ok_def)

lemma ok_indirect:
  "\<not> is_indirect ''https://fsl.example/f''"
  "\<not> is_indirect ''https://pixeldrain.com/api/file/AbC123?download''"
  "is_indirect ''https://gamerxyt.com/?r=aHR0cHM6Ly90Lm1lL2NoYW5uZWwvMTIz''"
  by (simp_all add: is_indirect_def)

lemma ok_final: "contains ''gamerxyt.com/?r='' ''https://gamerxyt.com/?r=aHR0cHM6Ly90Lm1lL2NoYW5uZWwvMTIz''"
  by simp

lemma normalize_telegram_example:
  "normalize_telegram (Some ''https://gamerxyt.com/?r=aHR0cHM6Ly90Lm1lL2NoYW5uZWwvMTIz'')
     = Some (codepoints ''https://t.me/channel/123'')"
  by code_simp

lemma ok_resolve_one:
  "\<not> started st \<Longrightarrow> resolve_one env_ok ''https://gamerxyt.com/?r=aHR0cHM6Ly90Lm1lL2NoYW5uZWwvMTIz'' st
     = (Some (codepoints ''https://t.me/channel/123''),
        emit (GetRedirect ''https://gamerxyt.com/?r=aHR0cHM6Ly90Lm1lL2NoYW5uZWwvMTIz'') st)"
  by (simp add: resolve_one_def get_gamerxyt_requests_def env_ok_def ok_final falsy_def
      normalize_telegram_example emit_def)

lemma ok_resolve:
  "\<not> started st \<Longrightarrow> resolve_links env_ok links_ok [] st
     = ([codepoints ''https://t.me/channel/123''],
        emit (GetRedirect ''https://gamerxyt.com/?r=aHR0cHM6Ly90Lm1lL2NoYW5uZWwvMTIz'') st)"
  by (simp add: links_ok_def falsy_def or_empty_def ok_indirect ok_resolve_one codepoints_def)

lemma str_int_example: "str_int 1610612736 = ''1610612736''"
  by code_simp

lemma size_example: "parse_size_from_text ''1.5 GB'' = Inr (Some 1610612736)"
  by code_simp

lemma ok_assemble:
  "assemble ''https://hubcloud.example/drive/abc''
     \<lparr>content_type = Some ''text/html'', content_length = None, status_code = Some (str_int 200)\<rparr>
     \<lparr>title = ''Movie.2160p.mkv'', file_size = ''1.5 GB'', file_type = ''video/x-matroska''\<rparr>
     links_ok [codepoints ''https://t.me/channel/123''] = Inr entry_ok"
  by (simp add: assemble_def size_example str_int_example py_or_def falsy_def entry_ok_def)

lemma ok_writable: "disk_writable env_ok"
  by (simp add: env_ok_def)

lemma ok_fresh:
  "\<not> started st \<Longrightarrow> fresh_extract env_ok ''https://hubcloud.example/drive/abc'' cache st
     = (Inr (''https://hubcloud.example/drive/abc'', entry_ok),
        (emit (GetRedirect ''https://gamerxyt.com/?r=aHR0cHM6Ly90Lm1lL2NoYW5uZWwvMTIz'')
          (emit (GetLinks ''https://hubcloud.example/drive/abc'')
            (emit (GetMetadata ''https://hubcloud.example/drive/abc'')
              (emit (HeadRequest ''https://hubcloud.example/drive/abc'') st))))
        \<lparr>cache_file := Some (cache(''https://hubcloud.example/drive/abc'' \<mapsto> entry_ok))\<rparr>)"
  by (simp add: fresh_extract_def ok_head ok_meta ok_links ok_fallback ok_resolve ok_assemble
      save_cache_def ok_writable emit_def)

lemma ok_process:
  "process_single_url env_ok ''  https://hubcloud.example/drive/abc '' False state0
     = (Inr (''https://hubcloud.example/drive/abc'', entry_ok),
        \<lparr>cache_file = Some [''https://hubcloud.example/drive/abc'' \<mapsto> entry_ok],
          started = False, engines = 0,
          activity = [HeadRequest ''https://hubcloud.example/drive/abc'',
                      GetMetadata ''https://hubcloud.example/drive/abc'',
                      GetLinks ''https://hubcloud.example/drive/abc'',
                      GetRedirect ''https://gamerxyt.com/?r=aHR0cHM6Ly90Lm1lL2NoYW5uZWwvMTIz'']\<rparr>)"
  by (simp add: process_single_url_def strip_example_ws Let_def load_cache_def state0_def ok_fresh
      emit_def)

lemma ok_process': 
  "process_single_url env_ok ''  https://hubcloud.example/drive/abc '' False state0
     = (Inr (''https://hubcloud.example/drive/abc'', entry_ok), state_after_ok)"
  unfolding state_after_ok_def by (rule ok_process)

lemma process_nonempty:
  "process_single_url ev u force st = (Inr r, st') \<Longrightarrow> strip u \<noteq> []"
  by (auto simp: process_single_url_def Let_def)

text \<open>
  Claim C3. When the URL, as the pipeline reads it (stripped, not empty), is in the
  cache, a call without \<open>force_refresh\<close> returns the stored entry and leaves the state
  as it was: nothing is requested, nothing is written; a second call does the same and
  returns the same entry. And whenever a call without \<open>force_refresh\<close> returns and the
  cache file can be written, the next call returns the same result with no activity,
  whatever the network would answer then.
\<close>

theorem cache_hit_no_network:
  "(strip u \<noteq> [] \<and> load_cache st (strip u) = Some ent \<longrightarrow>
       process_single_url ev u False st = (Inr (strip u, ent), st)
     \<and> process_single_url ev' u False (snd (process_single_url ev u False st))
         = (Inr (strip u, ent), st))
   \<and> (process_single_url ev u False st = (Inr r, st1) \<and> disk_writable ev \<longrightarrow>
       process_single_url ev' u False st1 = (Inr r, st1))"
proof (intro conjI impI)
  assume a: "strip u \<noteq> [] \<and> load_cache st (strip u) = Some ent"
  then show h: "process_single_url ev u False st = (Inr (strip u, ent), st)"
    by (simp add: process_hit)
  from a show "process_single_url ev' u False (snd (process_single_url ev u False st))
         = (Inr (strip u, ent), st)"
    by (simp add: process_hit)
next
  assume a: "process_single_url ev u False st = (Inr r, st1) \<and> disk_writable ev"
  obtain k ent where r: "r = (k, ent)" by (cases r)
  from a r have p: "process_single_url ev u False st = (Inr (k, ent), st1)" by simp
  then have ne: "strip u \<noteq> []" by (rule process_nonempty)
  from p have k: "k = strip u" by (rule process_result(1))
  have "load_cache st1 (strip u) = Some ent"
  proof (cases "load_cache st (strip u)")
    case None
    then show ?thesis using process_result(3) [OF p] a by simp
  next
    case (Some e0)
    with ne have "process_single_url ev u False st = (Inr (strip u, e0), st)" by (simp add: process_hit)
    with p Some show ?thesis by simp
  qed
  with ne show "process_single_url ev' u False st1 = (Inr r, st1)"
    by (simp add: process_hit r k)
qed

lemma load_after_ok: "load_cache state_after_ok ''https://hubcloud.example/drive/abc'' = Some entry_ok"
  by (simp add: load_cache_def state_after_ok_def)

theorem cache_hit_no_network_witness:
  "process_single_url env_meta_404 ''https://hubcloud.example/drive/abc'' False state_after_ok
     = (Inr (''https://hubcloud.example/drive/abc'', entry_ok), state_after_ok)
   \<and> process_single_url env_ok ''  https://hubcloud.example/drive/abc '' False state0
     = (Inr (''https://hubcloud.example/drive/abc'', entry_ok), state_after_ok)
   \<and> process_single_url env_meta_404 ''  https://hubcloud.example/drive/abc '' False state_after_ok
     = (Inr (''https://hubcloud.example/drive/abc'', entry_ok), state_after_ok)"
proof -
  note T1 = cache_hit_no_network
    [of "''https://hubcloud.example/drive/abc''" state_after_ok entry_ok env_meta_404 env_meta_404]
  have c1: "process_single_url env_meta_404 ''https://hubcloud.example/drive/abc'' False state_after_ok
     = (Inr (''https://hubcloud.example/drive/abc'', entry_ok), state_after_ok)"
    using T1 load_after_ok by (simp add: strip_example)
  note T2 = cache_hit_no_network
    [of "''  https://hubcloud.example/drive/abc ''" state0 entry_ok env_ok env_meta_404
        "(''https://hubcloud.example/drive/abc'', entry_ok)" state_after_ok]
  have c3: "process_single_url env_meta_404 ''  https://hubcloud.example/drive/abc '' False state_after_ok
     = (Inr (''https://hubcloud.example/drive/abc'', entry_ok), state_after_ok)"
    using T2 ok_process' ok_writable by blast
  from c1 ok_process' c3 show ?thesis by blast
qed

text \<open>
  Claim C10. \<open>process_single_url\<close> depends on its URL only through the stripped
  URL: inputs with the same stripped URL give the same result and the same state. The
  cache is looked up at the stripped URL, the stripped URL is the key of the result, and
  on a fresh extraction it is the \<open>url\<close> of the entry's meta and the key under which
  the entry is written.
\<close>

theorem url_is_stripped:
  "process_single_url ev u force st = process_single_url ev (strip u) force st
   \<and> (strip u = strip u' \<longrightarrow> process_single_url ev u force st = process_single_url ev u' force st)
   \<and> (\<not> force \<and> strip u \<noteq> [] \<and> load_cache st (strip u) = Some ent0 \<longrightarrow>
        process_single_url ev u force st = (Inr (strip u, ent0), st))
   \<and> (process_single_url ev u force st = (Inr (k, ent), st') \<longrightarrow>
        k = strip u
        \<and> (force \<or> load_cache st (strip u) = None \<longrightarrow>
             m_url (e_meta ent) = strip u
             \<and> (disk_writable ev \<longrightarrow> cache_file st' = Some ((load_cache st)(strip u \<mapsto> ent)))))"
proof (intro conjI impI)
  show "process_single_url ev u force st = process_single_url ev (strip u) force st"
    by (simp add: process_strip)
next
  assume "strip u = strip u'"
  then show "process_single_url ev u force st = process_single_url ev u' force st"
    by (simp add: process_single_url_def)
next
  assume "\<not> force \<and> strip u \<noteq> [] \<and> load_cache st (strip u) = Some ent0"
  then show "process_single_url ev u force st = (Inr (strip u, ent0), st)"
    by (simp add: process_hit)
next
  assume p: "process_single_url ev u force st = (Inr (k, ent), st')"
  then show "k = strip u" by (rule process_result(1))
  assume f: "force \<or> load_cache st (strip u) = None"
  with p have fr: "fresh_extract ev (strip u) (load_cache st) st = (Inr (k, ent), st')"
    by (auto simp: process_single_url_def Let_def split: if_splits)
  from fresh_extract_result [OF fr] show "m_url (e_meta ent) = strip u" by simp
  assume "disk_writable ev"
  with fresh_extract_result [OF fr]
  show "cache_file st' = Some ((load_cache st)(strip u \<mapsto> ent))" by simp
qed

theorem url_is_stripped_witness:
  "process_single_url env_ok ''  https://hubcloud.example/drive/abc '' False state0
     = process_single_url env_ok ''https://hubcloud.example/drive/abc'' False state0
   \<and> process_single_url env_ok ''  https://hubcloud.example/drive/abc '' False state0
     = (Inr (''https://hubcloud.example/drive/abc'', entry_ok), state_after_ok)
   \<and> m_url (e_meta entry_ok) = ''https://hubcloud.example/drive/abc''
   \<and> cache_file state_after_ok = Some [''https://hubcloud.example/drive/abc'' \<mapsto> entry_ok]"
proof -
  note T = url_is_stripped
    [of env_ok "''  https://hubcloud.example/drive/abc ''" False state0
        "''https://hubcloud.example/drive/abc''" entry_ok
        "''https://hubcloud.example/drive/abc''" entry_ok state_after_ok]
  have s: "strip ''  https://hubcloud.example/drive/abc '' = ''https://hubcloud.example/drive/abc''"
    by (simp add: strip_def is_space_def)
  have l: "load_cache state0 ''https://hubcloud.example/drive/abc'' = None"
    by (simp add: load_cache_def state0_def)
  from T s strip_example
  have c1: "process_single_url env_ok ''  https://hubcloud.example/drive/abc '' False state0
     = process_single_url env_ok ''https://hubcloud.example/drive/abc'' False state0"
    by simp
  from T ok_process' s l ok_writable
  have c2: "m_url (e_meta entry_ok) = ''https://hubcloud.example/drive/abc''
     \<and> cache_file state_after_ok = Some ((load_cache state0)(''https://hubcloud.example/drive/abc'' \<mapsto> entry_ok))"
    by simp
  then have c3: "cache_file state_after_ok = Some [''https://hubcloud.example/drive/abc'' \<mapsto> entry_ok]"
    by (simp add: state_after_ok_def)
  from c1 ok_process' c2 c3 show ?thesis by blast
qed

lemma resolve_one_sleeping:
  assumes "\<not> started st"
  shows "resolve_one ev u st
           = (normalize_telegram (fst (get_gamerxyt_requests ev u st)),
              snd (get_gamerxyt_requests ev u st))"
proof -
  obtain g st1 where g: "get_gamerxyt_requests ev u st = (g, st1)"
    by (cases "get_gamerxyt_requests ev u st")
  then have "quiet_step st st1" by (rule get_gamerxyt_requests_quiet)
  with assms have "\<not> started st1" by (simp add: quiet_step_def)
  with g show ?thesis by (simp add: resolve_one_def)
qed

text \<open>
  Claim C9. The resolution loop never starts the engine: the \<open>started\<close> flag and
  the number of engine instances are the same after it, and no start is recorded. While
  the engine is not started the loop makes redirect requests only: the resolution of a
  link is then what the HTTP request alone gives, and the engine stays asleep.
\<close>

theorem resolution_never_starts_engine:
  "(resolve_links ev ls acc st = (r, st') \<longrightarrow>
      started st' = started st \<and> engines st' = engines st
      \<and> (\<exists>new. activity st' = activity st @ new \<and> EngineStart \<notin> set new
            \<and> (started st \<or> list_all is_get_redirect new)))
   \<and> (\<not> started st \<longrightarrow>
        resolve_one ev u st
          = (normalize_telegram (fst (get_gamerxyt_requests ev u st)),
             snd (get_gamerxyt_requests ev u st))
        \<and> \<not> started (snd (resolve_one ev u st))
        \<and> engines (snd (resolve_one ev u st)) = engines st)"
proof (intro conjI impI)
  assume a: "resolve_links ev ls acc st = (r, st')"
  then have q: "quiet_step st st'" by (rule resolve_links_quiet)
  then show "started st' = started st" and "engines st' = engines st"
    by (simp_all add: quiet_step_def)
  from q show "\<exists>new. activity st' = activity st @ new \<and> EngineStart \<notin> set new
            \<and> (started st \<or> list_all is_get_redirect new)"
    unfolding quiet_step_def by blast
next
  assume s: "\<not> started st"
  then show "resolve_one ev u st
          = (normalize_telegram (fst (get_gamerxyt_requests ev u st)),
             snd (get_gamerxyt_requests ev u st))"
    by (rule resolve_one_sleeping)
  have "quiet_step st (snd (resolve_one ev u st))"
    by (rule resolve_one_quiet [of ev u st "fst (resolve_one ev u st)"]) simp
  with s show "\<not> started (snd (resolve_one ev u st))"
    and "engines (snd (resolve_one ev u st)) = engines st"
    by (simp_all add: quiet_step_def)
qed

lemma sleeping_resolution_example:
  "resolve_links env_meta_404 [(''10Gbps'', Some ''https://gamerxyt.com/x'')] [] state0
     = ([], state0\<lparr>activity := [GetRedirect ''https://gamerxyt.com/x'']\<rparr>)"
  by (simp add: falsy_def or_empty_def is_indirect_def resolve_one_def get_gamerxyt_requests_def
      env_meta_404_def state0_def emit_def normalize_telegram_def)

theorem resolution_never_starts_engine_witness:
  "resolve_links env_meta_404 [(''10Gbps'', Some ''https://gamerxyt.com/x'')] [] state0
     = ([], state0\<lparr>activity := [GetRedirect ''https://gamerxyt.com/x'']\<rparr>)
   \<and> \<not> started state0
   \<and> started (state0\<lparr>activity := [GetRedirect ''https://gamerxyt.com/x'']\<rparr>) = started state0
   \<and> engines (state0\<lparr>activity := [GetRedirect ''https://gamerxyt.com/x'']\<rparr>) = engines state0
   \<and> \<not> started (snd (resolve_one env_meta_404 ''https://gamerxyt.com/x'' state0))"
proof -
  note T = resolution_never_starts_engine
    [of env_meta_404 "[(''10Gbps'', Some ''https://gamerxyt.com/x'')]" "[]" state0 "[]"
        "state0\<lparr>activity := [GetRedirect ''https://gamerxyt.com/x'']\<rparr>" "''https://gamerxyt.com/x''"]
  have s: "\<not> started state0" by (simp add: state0_def)
  from T sleeping_resolution_example
  have c1: "started (state0\<lparr>activity := [GetRedirect ''https://gamerxyt.com/x'']\<rparr>) = started state0
      \<and> engines (state0\<lparr>activity := [GetRedirect ''https://gamerxyt.com/x'']\<rparr>) = engines state0"
    by blast
  from T s have c2: "\<not> started (snd (resolve_one env_meta_404 ''https://gamerxyt.com/x'' state0))"
    by blast
  from sleeping_resolution_example s c1 c2 show ?thesis by blast
qed

lemma re_match_here_Some:
  "re_match_here ls cls s = Some (l, r) \<Longrightarrow>
     l \<in> set ls \<and> r \<noteq> [] \<and> (\<forall>c\<in>set r. cls c) \<and> prefix (l @ r) s"
proof (induction ls)
  case Nil
  then show ?case by simp
next
  case (Cons a ls)
  show ?case
  proof (cases "prefix a s \<and> takeWhile cls (drop (length a) s) \<noteq> []")
    case True
    with Cons.prems have l: "l = a" and r: "r = takeWhile cls (drop (length a) s)" by auto
    from True obtain t where t: "s = a @ t" by (auto simp: prefix_def)
    then have "r = takeWhile cls t" using r by simp
    then have "prefix r t" by (metis takeWhile_dropWhile_id prefixI)
    with t have "prefix (l @ r) s" by (simp add: l)
    moreover have "\<forall>c\<in>set r. cls c" unfolding r by (meson set_takeWhileD)
    ultimately show ?thesis using True l r by simp
  next
    case False
    with Cons.prems have "re_match_here ls cls s = Some (l, r)" by auto
    with Cons.IH show ?thesis by simp
  qed
qed

lemma contains_of_prefix: "prefix p s \<Longrightarrow> contains p s"
  by (cases s) simp_all

lemma re_search_Some:
  "re_search ls cls s = Some (l, r) \<Longrightarrow>
     l \<in> set ls \<and> r \<noteq> [] \<and> (\<forall>c\<in>set r. cls c) \<and> contains (l @ r) s"
proof (induction s)
  case Nil
  then show ?case by simp
next
  case (Cons a s)
  show ?case
  proof (cases "re_match_here ls cls (a # s)")
    case None
    with Cons.prems have "re_search ls cls s = Some (l, r)" by simp
    with Cons.IH show ?thesis by simp
  next
    case (Some m)
    with Cons.prems have "re_match_here ls cls (a # s) = Some (l, r)" by simp
    from re_match_here_Some [OF this] show ?thesis by (auto simp del: contains.simps dest: contains_of_prefix)
  qed
qed

lemma normalize_telegram_cases:
  "h \<noteq> [] \<Longrightarrow> normalize_telegram (Some h) =
     (case re_search [''/foo/'', ''/re2/'', ''?r='', ''&r='', ''id=''] is_b64char h of
        None \<Rightarrow> Some (codepoints h)
      | Some (l, tok) \<Rightarrow>
          (case b64decode (pad4 tok) of
             None \<Rightarrow> Some (codepoints h)
           | Some decoded \<Rightarrow> Some (utf8_ignore decoded)))"
  by (simp add: normalize_telegram_def split: option.splits)

lemma ok_resolved:
  "(case fst (process_single_url env_ok ''  https://hubcloud.example/drive/abc '' False state0) of
      Inl e \<Rightarrow> False
    | Inr (k, ent) \<Rightarrow> e_resolved ent = [codepoints ''https://t.me/channel/123''])"
  by (simp add: ok_process' entry_ok_def)

text \<open>
  Claim C7. An intermediate URL is decoded by \<open>normalize_telegram\<close>: the first
  occurrence of \<open>/foo/\<close>, \<open>/re2/\<close>, \<open>?r=\<close>, \<open>&r=\<close> or \<open>id=\<close> that is followed by
  base64 characters gives the token (the longest run of them); the token is padded with
  \<open>=\<close>, fewer than four, to a length that is a multiple of four, and decoded; the
  decoded text is the result. When no pattern matches, or the decoding raises, the URL
  itself is the result. Every redirector URL that the resolution finds in a page body
  has the form \<open>https://gamerxyt.com/?r=\<close> followed by its token, and is decoded by
  that token. For the URL of the redirector with the token of
  \<open>https://t.me/channel/123\<close> the result is that address, and a page whose Telegram
  button has this href gets exactly this address in \<open>resolved\<close>.
\<close>

theorem token_decoding:
  "normalize_telegram (Some ''https://gamerxyt.com/?r=aHR0cHM6Ly90Lm1lL2NoYW5uZWwvMTIz'')
     = Some (codepoints ''https://t.me/channel/123'')
   \<and> (case fst (process_single_url env_ok ''  https://hubcloud.example/drive/abc '' False state0) of
        Inl e \<Rightarrow> False
      | Inr (k, ent) \<Rightarrow> e_resolved ent = [codepoints ''https://t.me/channel/123''])
   \<and> length (pad4 t) mod 4 = 0 \<and> (\<exists>n<4. pad4 t = t @ replicate n CHR ''='')
   \<and> (h \<noteq> [] \<longrightarrow>
        normalize_telegram (Some h) =
          (case re_search [''/foo/'', ''/re2/'', ''?r='', ''&r='', ''id=''] is_b64char h of
             None \<Rightarrow> Some (codepoints h)
           | Some (l, tok) \<Rightarrow>
               (case b64decode (pad4 tok) of
                  None \<Rightarrow> Some (codepoints h)
                | Some decoded \<Rightarrow> Some (utf8_ignore decoded))))
   \<and> (re_search [''/foo/'', ''/re2/'', ''?r='', ''&r='', ''id=''] is_b64char h = Some (l, tok) \<longrightarrow>
        l \<in> set [''/foo/'', ''/re2/'', ''?r='', ''&r='', ''id=''] \<and> tok \<noteq> []
        \<and> (\<forall>c\<in>set tok. is_b64char c) \<and> contains (l @ tok) h)
   \<and> (tok' \<noteq> [] \<and> (\<forall>c\<in>set tok'. is_b64char c) \<longrightarrow>
        normalize_telegram (Some (''https://gamerxyt.com/?r='' @ tok')) =
          (case b64decode (pad4 tok') of
             Some decoded \<Rightarrow> Some (utf8_ignore decoded)
           | None \<Rightarrow> Some (codepoints (''https://gamerxyt.com/?r='' @ tok'))))
   \<and> (gamerxyt_in_body body = Some g \<longrightarrow>
        (\<exists>tk. g = ''https://gamerxyt.com/?r='' @ tk \<and> tk \<noteq> [] \<and> (\<forall>c\<in>set tk. is_b64char c)
           \<and> normalize_telegram (Some g) =
               (case b64decode (pad4 tk) of
                  Some decoded \<Rightarrow> Some (utf8_ignore decoded)
                | None \<Rightarrow> Some (codepoints g))))"
proof (intro conjI impI)
  show "normalize_telegram (Some ''https://gamerxyt.com/?r=aHR0cHM6Ly90Lm1lL2NoYW5uZWwvMTIz'')
     = Some (codepoints ''https://t.me/channel/123'')"
    by (rule normalize_telegram_example)
  show "(case fst (process_single_url env_ok ''  https://hubcloud.example/drive/abc '' False state0) of
        Inl e \<Rightarrow> False
      | Inr (k, ent) \<Rightarrow> e_resolved ent = [codepoints ''https://t.me/channel/123''])"
    by (rule ok_resolved)
  show "length (pad4 t) mod 4 = 0" using pad4_shape [of t] by simp
  show "\<exists>n<4. pad4 t = t @ replicate n CHR ''=''" using pad4_shape [of t] by simp
next
  assume "h \<noteq> []"
  then show "normalize_telegram (Some h) =
          (case re_search [''/foo/'', ''/re2/'', ''?r='', ''&r='', ''id=''] is_b64char h of
             None \<Rightarrow> Some (codepoints h)
           | Some (l, tok) \<Rightarrow>
               (case b64decode (pad4 tok) of
                  None \<Rightarrow> Some (codepoints h)
                | Some decoded \<Rightarrow> Some (utf8_ignore decoded)))"
    by (rule normalize_telegram_cases)
next
  assume a: "re_search [''/foo/'', ''/re2/'', ''?r='', ''&r='', ''id=''] is_b64char h = Some (l, tok)"
  note r = re_search_Some [OF a]
  from r show "l \<in> set [''/foo/'', ''/re2/'', ''?r='', ''&r='', ''id='']" by blast
  from r show "tok \<noteq> []" by blast
  from r show "\<forall>c\<in>set tok. is_b64char c" by blast
  from r show "contains (l @ tok) h" by blast
next
  assume "tok' \<noteq> [] \<and> (\<forall>c\<in>set tok'. is_b64char c)"
  then show "normalize_telegram (Some (''https://gamerxyt.com/?r='' @ tok')) =
          (case b64decode (pad4 tok') of
             Some decoded \<Rightarrow> Some (utf8_ignore decoded)
           | None \<Rightarrow> Some (codepoints (''https://gamerxyt.com/?r='' @ tok')))"
    by (intro normalize_telegram_gamerxyt) simp_all
next
  assume "gamerxyt_in_body body = Some g"
  then obtain l tk where r: "re_search [''https://gamerxyt.com/?r=''] is_b64char body = Some (l, tk)"
    and g: "g = l @ tk"
    by (auto simp: gamerxyt_in_body_def split: option.splits)
  from re_search_Some [OF r] have l: "l = ''https://gamerxyt.com/?r=''" and ne: "tk \<noteq> []"
    and al: "\<forall>c\<in>set tk. is_b64char c" by simp_all
  from normalize_telegram_gamerxyt [OF ne al] g l ne al
  show "\<exists>tk. g = ''https://gamerxyt.com/?r='' @ tk \<and> tk \<noteq> [] \<and> (\<forall>c\<in>set tk. is_b64char c)
           \<and> normalize_telegram (Some g) =
               (case b64decode (pad4 tk) of
                  Some decoded \<Rightarrow> Some (utf8_ignore decoded)
                | None \<Rightarrow> Some (codepoints g))"
    by blast
qed

lemma b64_example:
  "b64decode (pad4 ''dC5tZS94'') = Some [116, 46, 109, 101, 47, 120]"
  by code_simp

lemma utf8_example: "utf8_ignore [116, 46, 109, 101, 47, 120] = codepoints ''t.me/x''"
  by code_simp

lemma b64_bad: "b64decode (pad4 ''abcde'') = None"
  by code_simp

theorem token_decoding_witness:
  "normalize_telegram (Some (''https://gamerxyt.com/?r='' @ ''dC5tZS94'')) = Some (codepoints ''t.me/x'')
   \<and> normalize_telegram (Some ''https://gamerxyt.com/?id=abcde'')
       = Some (codepoints ''https://gamerxyt.com/?id=abcde'')
   \<and> normalize_telegram (Some ''https://hubcloud.example/file'')
       = Some (codepoints ''https://hubcloud.example/file'')"
proof -
  note T1 = token_decoding [of t "''https://gamerxyt.com/?id=abcde''" "''id=''" "''abcde''" "''dC5tZS94''" for t]
  note T2 = token_decoding [of t "''https://hubcloud.example/file''" l tok "''dC5tZS94''" for t l tok]
  have h1: "''dC5tZS94'' \<noteq> [] \<and> (\<forall>c\<in>set ''dC5tZS94''. is_b64char c)"
    by (simp add: is_b64char_def is_alnum_def is_upper_def is_lower_def is_digit_def)
  from T1 h1 have "normalize_telegram (Some (''https://gamerxyt.com/?r='' @ ''dC5tZS94'')) =
          (case b64decode (pad4 ''dC5tZS94'') of
             Some decoded \<Rightarrow> Some (utf8_ignore decoded)
           | None \<Rightarrow> Some (codepoints (''https://gamerxyt.com/?r='' @ ''dC5tZS94'')))"
    by blast
  then have c1: "normalize_telegram (Some (''https://gamerxyt.com/?r='' @ ''dC5tZS94'')) = Some (codepoints ''t.me/x'')"
    by (simp only: b64_example utf8_example option.case)
  have s2: "re_search [''/foo/'', ''/re2/'', ''?r='', ''&r='', ''id=''] is_b64char ''https://gamerxyt.com/?id=abcde''
      = Some (''id='', ''abcde'')"
    by (simp add: is_b64char_def is_alnum_def is_upper_def is_lower_def is_digit_def)
  have n2: "''https://gamerxyt.com/?id=abcde'' \<noteq> []" by simp
  from T1 n2 have "normalize_telegram (Some ''https://gamerxyt.com/?id=abcde'') =
          (case re_search [''/foo/'', ''/re2/'', ''?r='', ''&r='', ''id=''] is_b64char ''https://gamerxyt.com/?id=abcde'' of
             None \<Rightarrow> Some (codepoints ''https://gamerxyt.com/?id=abcde'')
           | Some (l, tok) \<Rightarrow>
               (case b64decode (pad4 tok) of
                  None \<Rightarrow> Some (codepoints ''https://gamerxyt.com/?id=abcde'')
                | Some decoded \<Rightarrow> Some (utf8_ignore decoded)))"
    by blast
  then have c2: "normalize_telegram (Some ''https://gamerxyt.com/?id=abcde'')
       = Some (codepoints ''https://gamerxyt.com/?id=abcde'')"
    by (simp only: s2 b64_bad option.case prod.case)
  have s3: "re_search [''/foo/'', ''/re2/'', ''?r='', ''&r='', ''id=''] is_b64char ''https://hubcloud.example/file'' = None"
    by (simp add: is_b64char_def is_alnum_def is_upper_def is_lower_def is_digit_def)
  have n3: "''https://hubcloud.example/file'' \<noteq> []" by simp
  from T2 n3 have "normalize_telegram (Some ''https://hubcloud.example/file'') =
          (case re_search [''/foo/'', ''/re2/'', ''?r='', ''&r='', ''id=''] is_b64char ''https://hubcloud.example/file'' of
             None \<Rightarrow> Some (codepoints ''https://hubcloud.example/file'')
           | Some (l, tok) \<Rightarrow>
               (case b64decode (pad4 tok) of
                  None \<Rightarrow> Some (codepoints ''https://hubcloud.example/file'')
                | Some decoded \<Rightarrow> Some (utf8_ignore decoded)))"
    by blast
  then have c3: "normalize_telegram (Some ''https://hubcloud.example/file'')
       = Some (codepoints ''https://hubcloud.example/file'')"
    by (simp only: s3 option.case)
  from c1 c2 c3 show ?thesis by blast
qed

section \<open>The two classifications compared\<close>

lemma re_match_here_cong:
  assumes "\<forall>c\<in>set s. c1 c = c2 c"
  shows "re_match_here ls c1 s = re_match_here ls c2 s"
proof -
  have t: "takeWhile c1 (drop n s) = takeWhile c2 (drop n s)" for n
    using assms by (intro takeWhile_cong refl) (auto dest: in_set_dropD)
  show ?thesis by (induction ls) (simp_all add: t)
qed

lemma re_search_cong:
  "\<forall>c\<in>set s. c1 c = c2 c \<Longrightarrow> re_search ls c1 s = re_search ls c2 s"
proof (induction s)
  case Nil
  then show ?case by simp
next
  case (Cons a s)
  then have "re_match_here ls c1 (a # s) = re_match_here ls c2 (a # s)"
    by (intro re_match_here_cong)
  with Cons show ?case by (simp split: option.splits)
qed

lemma re_search_tme_only:
  "re_search [''https://t.me/''] cls ''https://t.me/'' = None"
  by simp

lemma telegram_same:
  assumes "\<forall>c\<in>set (amp_strip href). \<not> is_space c \<and> c \<noteq> CHR 0x22 \<and> c \<noteq> CHR 0x27"
  shows "telegram_browser href = telegram_requests href"
proof -
  define h where "h = amp_strip href"
  have all: "\<forall>c\<in>set h. tme_class_requests c" using assms by (simp add: h_def tme_class_requests_def)
  then have "\<forall>c\<in>set h. tme_class_browser c = tme_class_requests c"
    by (simp add: tme_class_requests_def tme_class_browser_def)
  then have same: "re_search [''https://t.me/''] tme_class_browser h
                     = re_search [''https://t.me/''] tme_class_requests h"
    by (rule re_search_cong)
  show ?thesis
  proof (cases "prefix ''https://t.me/'' h")
    case False
    then show ?thesis by (simp add: telegram_browser_def telegram_requests_def h_def [symmetric] same)
  next
    case True
    then obtain t where t: "h = ''https://t.me/'' @ t" by (auto simp: prefix_def)
    have b: "telegram_browser href = h" using True by (simp add: telegram_browser_def h_def [symmetric])
    have "telegram_requests href = h"
    proof (cases "t = []")
      case True
      with t have "h = ''https://t.me/''" by simp
      then show ?thesis by (simp add: telegram_requests_def h_def [symmetric])
    next
      case False
      have tw: "takeWhile tme_class_requests t = t" using all t by (simp add: takeWhile_eq_all_conv)
      have "re_search [''https://t.me/''] tme_class_requests h = Some (''https://t.me/'', t)"
        unfolding t using False by (simp add: tw)
      then show ?thesis by (simp add: telegram_requests_def h_def [symmetric] t)
    qed
    with b show ?thesis by simp
  qed
qed

text \<open>
  Claim C2, as the code has it. For an anchor whose text contains \<open>FSLv2\<close> or
  \<open>FSL Server\<close>, or does not contain \<open>FSL\<close>, the browser path assigns the label
  that the requests path assigns, unless the second page of a \<open>10Gbps\<close> button cannot
  be opened, which raises. The stored href is the same for \<open>FSLv2\<close>, \<open>FSL\<close> and
  \<open>PixelServer\<close> (and no label is the same); for \<open>10Gbps\<close> the browser path stores
  what the second page gives (the href of \<open>a#vd\<close>, else the anchor's href); for
  \<open>Telegram\<close> it is the same when the href, after the AMP prefix is removed, has no
  white space and no quote character.
\<close>

theorem browser_classification_agreement:
  "(contains ''FSL'' txt \<longrightarrow> contains ''FSLv2'' txt \<or> contains ''FSL Server'' txt) \<longrightarrow>
     map_option (map_option fst) (classify_browser second txt href)
       = (if map_option fst (classify_requests txt href) = Some ''10Gbps'' \<and> second href = Page2NavError
          then None
          else Some (map_option fst (classify_requests txt href)))
     \<and> (map_option fst (classify_requests txt href) \<in> {None, Some ''FSLv2'', Some ''FSL'', Some ''PixelServer''}
          \<longrightarrow> classify_browser second txt href = Some (classify_requests txt href))
     \<and> (map_option fst (classify_requests txt href) = Some ''10Gbps''
          \<longrightarrow> classify_requests txt href = Some (''10Gbps'', Some href)
              \<and> classify_browser second txt href
                  = map_option (\<lambda>v. Some (''10Gbps'', v)) (resolve_10gbps (second href) href))
     \<and> (map_option fst (classify_requests txt href) = Some ''Telegram''
          \<and> (\<forall>c\<in>set (amp_strip href). \<not> is_space c \<and> c \<noteq> CHR 0x22 \<and> c \<noteq> CHR 0x27)
          \<longrightarrow> classify_browser second txt href = Some (classify_requests txt href))"
proof (intro impI conjI)
  assume a: "contains ''FSL'' txt \<longrightarrow> contains ''FSLv2'' txt \<or> contains ''FSL Server'' txt"
  have fs: "contains ''FSL Server'' txt \<Longrightarrow> contains ''FSL'' txt" by (rule FSL_of_FSL_Server)
  show "map_option (map_option fst) (classify_browser second txt href)
       = (if map_option fst (classify_requests txt href) = Some ''10Gbps'' \<and> second href = Page2NavError
          then None
          else Some (map_option fst (classify_requests txt href)))"
    unfolding label_browser label_requests using a fs by auto
  {
    assume "map_option fst (classify_requests txt href) \<in> {None, Some ''FSLv2'', Some ''FSL'', Some ''PixelServer''}"
    then show "classify_browser second txt href = Some (classify_requests txt href)"
      using a fs by (auto simp: classify_requests_def classify_browser_def split: if_splits)
  }
  {
    assume t: "map_option fst (classify_requests txt href) = Some ''10Gbps''"
    then show "classify_requests txt href = Some (''10Gbps'', Some href)"
      by (auto simp: classify_requests_def split: if_splits)
    from t show "classify_browser second txt href
                  = map_option (\<lambda>v. Some (''10Gbps'', v)) (resolve_10gbps (second href) href)"
      using a fs by (auto simp: classify_requests_def classify_browser_def split: if_splits option.splits)
  }
  {
    assume t: "map_option fst (classify_requests txt href) = Some ''Telegram''
          \<and> (\<forall>c\<in>set (amp_strip href). \<not> is_space c \<and> c \<noteq> CHR 0x22 \<and> c \<noteq> CHR 0x27)"
    then have "telegram_browser href = telegram_requests href" by (intro telegram_same) blast
    with t show "classify_browser second txt href = Some (classify_requests txt href)"
      using a fs by (auto simp: classify_requests_def classify_browser_def split: if_splits)
  }
qed

text \<open>
  Claim C2 as stated fails: a button whose text is \<open>Download [FSL]\<close> is stored under
  \<open>FSL\<close> by the requests path and is dropped by the browser path, and a Telegram href
  with a space after the address is cut at the space by the requests path and kept whole
  by the browser path.
\<close>

theorem browser_classification_differs:
  "classify_requests ''Download [FSL]'' ''https://fsl.example/f'' = Some (''FSL'', Some ''https://fsl.example/f'')
   \<and> classify_browser (\<lambda>u. Page2NoVd) ''Download [FSL]'' ''https://fsl.example/f'' = Some None
   \<and> links_loop_requests [] [(''Download [FSL]'', Some ''https://fsl.example/f'')]
       = [(''FSL'', Some ''https://fsl.example/f'')]
   \<and> links_loop_browser (\<lambda>u. Page2NoVd) [] [(''Download [FSL]'', Some ''https://fsl.example/f'')] = Some []
   \<and> classify_requests ''Telegram'' ''https://t.me/chan x''
       = Some (''Telegram'', Some ''https://t.me/chan'')
   \<and> classify_browser (\<lambda>u. Page2NoVd) ''Telegram'' ''https://t.me/chan x''
       = Some (Some (''Telegram'', Some ''https://t.me/chan x''))"
  by (simp add: classify_requests_def classify_browser_def telegram_requests_def telegram_browser_def
      amp_strip_def tme_class_requests_def is_space_def)

lemma amp_strip_example:
  "amp_strip ''https://cdn.ampproject.org/c/s/t.me/chan'' = ''https://t.me/chan''"
  by (simp add: amp_strip_def)

lemma classify_requests_telegram_example:
  "classify_requests ''Telegram'' ''https://cdn.ampproject.org/c/s/t.me/chan''
     = Some (''Telegram'', Some ''https://t.me/chan'')"
  by (simp add: classify_requests_def telegram_requests_def amp_strip_example tme_class_requests_def
      is_space_def)

lemma classify_requests_10gbps_example:
  "classify_requests ''Download [Server : 10Gbps]'' ''https://g.example/x''
     = Some (''10Gbps'', Some ''https://g.example/x'')"
  by (simp add: classify_requests_def)

theorem browser_classification_agreement_witness:
  "classify_browser (\<lambda>u. Page2NoVd) ''Telegram'' ''https://cdn.ampproject.org/c/s/t.me/chan''
     = Some (Some (''Telegram'', Some ''https://t.me/chan''))
   \<and> classify_browser (\<lambda>u. Page2Vd (Some ''https://final.example/vd''))
        ''Download [Server : 10Gbps]'' ''https://g.example/x''
     = Some (Some (''10Gbps'', Some ''https://final.example/vd''))"
proof -
  note T1 = browser_classification_agreement
    [of "''Telegram''" "\<lambda>u. Page2NoVd" "''https://cdn.ampproject.org/c/s/t.me/chan''"]
  have f1: "\<not> contains ''FSL'' ''Telegram''" by simp
  have q1: "\<forall>c\<in>set (amp_strip ''https://cdn.ampproject.org/c/s/t.me/chan'').
              \<not> is_space c \<and> c \<noteq> CHR 0x22 \<and> c \<noteq> CHR 0x27"
    by (simp add: amp_strip_example is_space_def)
  have l1: "map_option fst (classify_requests ''Telegram'' ''https://cdn.ampproject.org/c/s/t.me/chan'')
              = Some ''Telegram''"
    by (simp add: classify_requests_telegram_example)
  from T1 f1 q1 l1
  have "classify_browser (\<lambda>u. Page2NoVd) ''Telegram'' ''https://cdn.ampproject.org/c/s/t.me/chan''
          = Some (classify_requests ''Telegram'' ''https://cdn.ampproject.org/c/s/t.me/chan'')"
    by blast
  then have c1: "classify_browser (\<lambda>u. Page2NoVd) ''Telegram'' ''https://cdn.ampproject.org/c/s/t.me/chan''
     = Some (Some (''Telegram'', Some ''https://t.me/chan''))"
    by (simp only: classify_requests_telegram_example)
  note T2 = browser_classification_agreement
    [of "''Download [Server : 10Gbps]''" "\<lambda>u. Page2Vd (Some ''https://final.example/vd'')"
        "''https://g.example/x''"]
  have f2: "\<not> contains ''FSL'' ''Download [Server : 10Gbps]''" by simp
  have l2: "map_option fst (classify_requests ''Download [Server : 10Gbps]'' ''https://g.example/x'')
              = Some ''10Gbps''"
    by (simp add: classify_requests_10gbps_example)
  from T2 f2 l2
  have "classify_browser (\<lambda>u. Page2Vd (Some ''https://final.example/vd''))
          ''Download [Server : 10Gbps]'' ''https://g.example/x''
        = map_option (\<lambda>v. Some (''10Gbps'', v))
            (resolve_10gbps (Page2Vd (Some ''https://final.example/vd'')) ''https://g.example/x'')"
    by blast
  then have c2: "classify_browser (\<lambda>u. Page2Vd (Some ''https://final.example/vd''))
        ''Download [Server : 10Gbps]'' ''https://g.example/x''
     = Some (Some (''10Gbps'', Some ''https://final.example/vd''))"
    by (simp add: resolve_10gbps_def)
  from c1 c2 show ?thesis by (rule conjI)
qed

section \<open>Properties of the edge proxy\<close>

lemma poll_once_None_iff: "poll_once pe i = None \<longleftrightarrow> \<not> relayable pe i"
  by (auto simp: poll_once_def relayable_def split: upstream.splits body.splits)

lemma poll_once_Some:
  "poll_once pe i = Some r \<Longrightarrow>
     \<exists>b code json. health_poll pe i = Response 200 b
        \<and> retry_forward pe i = Response code (Json json) \<and> r = relay code json"
  by (auto simp: poll_once_def split: upstream.splits body.splits if_splits)

lemma poll_Some_first:
  "poll pe max_wait tw i = Some r \<Longrightarrow>
     \<exists>n. tw + 2 * int n < max_wait \<and> poll_once pe (i + n) = Some r
        \<and> (\<forall>m<n. poll_once pe (i + m) = None)"
proof (induction pe max_wait tw i rule: poll.induct)
  case (1 pe max_wait total_waited i)
  from "1.prems" have lt: "total_waited < max_wait"
    by (simp add: poll.simps [of pe max_wait total_waited i] split: if_splits)
  show ?case
  proof (cases "poll_once pe i")
    case (Some r')
    with lt "1.prems" have "r' = r" by (simp add: poll.simps [of pe max_wait total_waited i])
    with Some lt show ?thesis by (intro exI [of _ 0]) simp
  next
    case None
    with lt "1.prems" have "poll pe max_wait (total_waited + 2) (i + 1) = Some r"
      by (simp add: poll.simps [of pe max_wait total_waited i])
    from "1.IH" [OF lt None this] obtain n where
      n: "total_waited + 2 + 2 * int n < max_wait" "poll_once pe (i + 1 + n) = Some r"
         "\<forall>m<n. poll_once pe (i + 1 + m) = None"
      by blast
    have "\<forall>m<Suc n. poll_once pe (i + m) = None"
    proof (intro allI impI)
      fix m assume m: "m < Suc n"
      show "poll_once pe (i + m) = None"
      proof (cases m)
        case 0
        with None show ?thesis by simp
      next
        case (Suc m')
        with m n(3) show ?thesis by simp
      qed
    qed
    with n show ?thesis by (intro exI [of _ "Suc n"]) simp
  qed
qed

lemma poll_None_all:
  "poll pe max_wait tw i = None \<Longrightarrow>
     \<forall>n. tw + 2 * int n < max_wait \<longrightarrow> poll_once pe (i + n) = None"
proof (induction pe max_wait tw i rule: poll.induct)
  case (1 pe max_wait total_waited i)
  show ?case
  proof (cases "total_waited < max_wait")
    case False
    then show ?thesis by auto
  next
    case True
    with "1.prems" have o: "poll_once pe i = None"
      and p: "poll pe max_wait (total_waited + 2) (i + 1) = None"
      by (auto simp: poll.simps [of pe max_wait total_waited i] split: option.splits)
    note ih = "1.IH" [OF True o p]
    show ?thesis
    proof (intro allI impI)
      fix n assume b: "total_waited + 2 * int n < max_wait"
      show "poll_once pe (i + n) = None"
      proof (cases n)
        case 0
        with o show ?thesis by simp
      next
        case (Suc n')
        with b have "total_waited + 2 + 2 * int n' < max_wait" by simp
        with ih have "poll_once pe (i + 1 + n') = None" by blast
        with Suc show ?thesis by simp
      qed
    qed
  qed
qed

lemma after_wake_cases:
  "(after_wake svc cfg pe wait = waking svc cfg
      \<and> (wait \<longrightarrow> (\<forall>k. 2 * int k < MAX_BLOCK_WAIT cfg \<longrightarrow> \<not> relayable pe k)))
   \<or> (wait \<and> (\<exists>k code json b. 2 * int k < MAX_BLOCK_WAIT cfg
          \<and> health_poll pe k = Response 200 b
          \<and> retry_forward pe k = Response code (Json json)
          \<and> (\<forall>i<k. \<not> relayable pe i)
          \<and> after_wake svc cfg pe wait = relay code json))"
proof (cases wait)
  case False
  then show ?thesis by (simp add: after_wake_def)
next
  case True
  show ?thesis
  proof (cases "poll pe (MAX_BLOCK_WAIT cfg) 0 0")
    case None
    from poll_None_all [OF None] have "\<forall>k. 2 * int k < MAX_BLOCK_WAIT cfg \<longrightarrow> \<not> relayable pe k"
      by (simp add: poll_once_None_iff)
    with None True show ?thesis by (simp add: after_wake_def)
  next
    case (Some r)
    from poll_Some_first [OF Some] obtain n where
      n: "2 * int n < MAX_BLOCK_WAIT cfg" "poll_once pe n = Some r" "\<forall>m<n. poll_once pe m = None"
      by auto
    from poll_once_Some [OF n(2)] obtain b code json where
      h: "health_poll pe n = Response 200 b" "retry_forward pe n = Response code (Json json)"
         "r = relay code json"
      by blast
    from n(3) have "\<forall>i<n. \<not> relayable pe i" by (simp add: poll_once_None_iff)
    with n(1) h Some True show ?thesis by (auto simp: after_wake_def)
  qed
qed

text \<open>
  Claim C4, as the code has it. Take the service URL configured and a URL given, and a
  first forward that fails with a connection error or a read timeout, or returns a
  response that is not a 200, or returns a 200 with a body that is JSON and that
  \<open>JSONResponse\<close> renders. Then the proxy answers, and its answer is: the body of the
  first forward with status 200, when that was a 200; otherwise, with \<open>wait\<close>, the
  status and the body of the extraction request issued again, whatever that status is,
  taken at the first poll that is healthy and at which that request returns a body that
  can be relayed, if there is such a poll among those made (poll \<open>k\<close> is made while
  \<open>2 * k < MAX_BLOCK_WAIT\<close>); otherwise the 202 \<open>waking\<close> response with its
  \<open>Retry-After\<close> header. Without \<open>wait\<close> it is the first or the last. Failures of a
  health poll and of the request issued again are passed over, and the outcome of the
  wake call does not matter.
\<close>

theorem proxy_normalizes:
  "\<not> falsy (SERVICE_URL cfg) \<and> \<not> falsy url
   \<and> (fast_forward pe = ConnectError \<or> fast_forward pe = ReadTimeout
      \<or> (\<exists>code b. fast_forward pe = Response code b \<and> (code = 200 \<longrightarrow> (\<exists>json. b = Json json))))
   \<longrightarrow>
     (\<exists>r. proxy_get svc cfg pe url force wait = Inr r
        \<and> ((\<exists>json. fast_forward pe = Response 200 (Json json) \<and> r = relay 200 json)
           \<or> ((\<forall>b. fast_forward pe \<noteq> Response 200 b) \<and> r = waking svc cfg
              \<and> (wait \<longrightarrow> (\<forall>k. 2 * int k < MAX_BLOCK_WAIT cfg \<longrightarrow> \<not> relayable pe k)))
           \<or> ((\<forall>b. fast_forward pe \<noteq> Response 200 b) \<and> wait
              \<and> (\<exists>k code json b. 2 * int k < MAX_BLOCK_WAIT cfg
                    \<and> health_poll pe k = Response 200 b
                    \<and> retry_forward pe k = Response code (Json json)
                    \<and> (\<forall>i<k. \<not> relayable pe i)
                    \<and> r = relay code json))))
     \<and> (\<not> wait \<longrightarrow>
          proxy_get svc cfg pe url force wait
            = Inr (case fast_forward pe of
                     Response code b \<Rightarrow>
                       (case b of
                          Json json \<Rightarrow> if code = 200 then relay 200 json else waking svc cfg
                        | NoJson \<Rightarrow> waking svc cfg
                        | NotCompliant \<Rightarrow> waking svc cfg)
                   | ConnectError \<Rightarrow> waking svc cfg
                   | ReadTimeout \<Rightarrow> waking svc cfg
                   | OtherFailure \<Rightarrow> waking svc cfg))
     \<and> resp_status (waking svc cfg :: 'a response) = 202
     \<and> resp_headers (waking svc cfg :: 'a response)
          = [(''Retry-After'', str_int (SUGGESTED_RETRY_AFTER cfg))]"
proof (intro impI conjI)
  assume a: "\<not> falsy (SERVICE_URL cfg) \<and> \<not> falsy url
   \<and> (fast_forward pe = ConnectError \<or> fast_forward pe = ReadTimeout
      \<or> (\<exists>code b. fast_forward pe = Response code b \<and> (code = 200 \<longrightarrow> (\<exists>json. b = Json json))))"
  show "\<exists>r. proxy_get svc cfg pe url force wait = Inr r
        \<and> ((\<exists>json. fast_forward pe = Response 200 (Json json) \<and> r = relay 200 json)
           \<or> ((\<forall>b. fast_forward pe \<noteq> Response 200 b) \<and> r = waking svc cfg
              \<and> (wait \<longrightarrow> (\<forall>k. 2 * int k < MAX_BLOCK_WAIT cfg \<longrightarrow> \<not> relayable pe k)))
           \<or> ((\<forall>b. fast_forward pe \<noteq> Response 200 b) \<and> wait
              \<and> (\<exists>k code json b. 2 * int k < MAX_BLOCK_WAIT cfg
                    \<and> health_poll pe k = Response 200 b
                    \<and> retry_forward pe k = Response code (Json json)
                    \<and> (\<forall>i<k. \<not> relayable pe i)
                    \<and> r = relay code json)))"
  proof (cases "\<exists>json. fast_forward pe = Response 200 (Json json)")
    case True
    with a show ?thesis by (auto simp: proxy_get_def)
  next
    case False
    with a have n: "\<forall>b. fast_forward pe \<noteq> Response 200 b" by auto
    with a have p: "proxy_get svc cfg pe url force wait = Inr (after_wake svc cfg pe wait)"
      by (auto simp: proxy_get_def split: upstream.splits)
    from after_wake_cases [of svc cfg pe wait] n p show ?thesis by auto
  qed
  show "resp_status (waking svc cfg :: 'a response) = 202" by (simp add: waking_def)
  show "resp_headers (waking svc cfg :: 'a response)
          = [(''Retry-After'', str_int (SUGGESTED_RETRY_AFTER cfg))]" by (simp add: waking_def)
  assume "\<not> wait"
  with a show "proxy_get svc cfg pe url force wait
            = Inr (case fast_forward pe of
                     Response code b \<Rightarrow>
                       (case b of
                          Json json \<Rightarrow> if code = 200 then relay 200 json else waking svc cfg
                        | NoJson \<Rightarrow> waking svc cfg
                        | NotCompliant \<Rightarrow> waking svc cfg)
                   | ConnectError \<Rightarrow> waking svc cfg
                   | ReadTimeout \<Rightarrow> waking svc cfg
                   | OtherFailure \<Rightarrow> waking svc cfg)"
    by (auto simp: proxy_get_def after_wake_def split: upstream.splits body.splits)
qed

text \<open>
  Claim C4 as stated fails: with \<open>wait\<close>, after a healthy poll, the proxy relays the
  status 500 of the extraction request issued again; and an exception of the first
  forward other than \<open>ConnectError\<close> and \<open>ReadTimeout\<close>, or a 200 answer of the first
  forward whose body \<open>r.json()\<close> or \<open>JSONResponse\<close> refuses, leaves the handler.
\<close>

theorem proxy_relays_5xx:
  "proxy_get railway config_default env_cold_then_500 (Some ''https://hubcloud.example/drive/abc'')
       False True
     = Inr \<lparr>resp_status = 500, resp_content = Relayed ''Internal Server Error'', resp_headers = []\<rparr>
   \<and> proxy_get render config_default env_connect_timeout (Some ''https://hubcloud.example/drive/abc'')
       False False
     = Inl Unhandled
   \<and> proxy_get railway config_default (env_warm\<lparr>fast_forward := Response 200 NoJson\<rparr>)
       (Some ''https://hubcloud.example/drive/abc'') False False
     = Inl Unhandled
   \<and> proxy_get railway config_default (env_warm\<lparr>fast_forward := Response 200 NotCompliant\<rparr>)
       (Some ''https://hubcloud.example/drive/abc'') False True
     = Inl Unhandled"
  by (simp add: proxy_get_def after_wake_def poll.simps poll_once_def relay_def falsy_def
      config_default_def env_cold_then_500_def env_connect_timeout_def env_warm_def)

lemma relayable_wakes: "relayable env_wakes k \<longleftrightarrow> 3 \<le> k"
  by (simp add: relayable_def env_wakes_def)

theorem proxy_normalizes_witness:
  "proxy_get railway config_default env_warm (Some ''https://hubcloud.example/drive/abc'') False False
     = Inr (relay 200 ''entry'')
   \<and> proxy_get railway config_default env_unreachable (Some ''https://hubcloud.example/drive/abc'')
        False False
     = Inr (waking railway config_default)
   \<and> proxy_get railway config_default env_wakes (Some ''https://hubcloud.example/drive/abc'')
        False True
     = Inr (relay 200 ''entry'')"
proof -
  note T1 = proxy_normalizes
    [of config_default "Some ''https://hubcloud.example/drive/abc''" env_warm railway False False]
  have h1: "\<not> falsy (SERVICE_URL config_default) \<and> \<not> falsy (Some ''https://hubcloud.example/drive/abc'')
      \<and> (fast_forward env_warm = ConnectError \<or> fast_forward env_warm = ReadTimeout
         \<or> (\<exists>code b. fast_forward env_warm = Response code b
               \<and> (code = 200 \<longrightarrow> (\<exists>json. b = Json json))))"
    by (simp add: falsy_def config_default_def env_warm_def)
  have f1: "fast_forward env_warm = Response 200 (Json ''entry'')" by (simp add: env_warm_def)
  from T1 h1 have "proxy_get railway config_default env_warm (Some ''https://hubcloud.example/drive/abc'')
      False False
     = Inr (case fast_forward env_warm of
                     Response code b \<Rightarrow>
                       (case b of
                          Json json \<Rightarrow>
                            if code = 200 then relay 200 json else waking railway config_default
                        | NoJson \<Rightarrow> waking railway config_default
                        | NotCompliant \<Rightarrow> waking railway config_default)
                   | ConnectError \<Rightarrow> waking railway config_default
                   | ReadTimeout \<Rightarrow> waking railway config_default
                   | OtherFailure \<Rightarrow> waking railway config_default)"
    by blast
  then have c1: "proxy_get railway config_default env_warm (Some ''https://hubcloud.example/drive/abc'')
      False False = Inr (relay 200 ''entry'')"
    by (simp add: f1)
  note T2 = proxy_normalizes
    [of config_default "Some ''https://hubcloud.example/drive/abc''" env_unreachable railway False False]
  have h2: "\<not> falsy (SERVICE_URL config_default) \<and> \<not> falsy (Some ''https://hubcloud.example/drive/abc'')
      \<and> (fast_forward env_unreachable = ConnectError \<or> fast_forward env_unreachable = ReadTimeout
         \<or> (\<exists>code b. fast_forward env_unreachable = Response code b
               \<and> (code = 200 \<longrightarrow> (\<exists>json. b = Json json))))"
    by (simp add: falsy_def config_default_def env_unreachable_def)
  have f2: "fast_forward env_unreachable = ReadTimeout" by (simp add: env_unreachable_def)
  from T2 h2 have "proxy_get railway config_default env_unreachable
      (Some ''https://hubcloud.example/drive/abc'') False False
     = Inr (case fast_forward env_unreachable of
                     Response code b \<Rightarrow>
                       (case b of
                          Json json \<Rightarrow>
                            if code = 200 then relay 200 json else waking railway config_default
                        | NoJson \<Rightarrow> waking railway config_default
                        | NotCompliant \<Rightarrow> waking railway config_default)
                   | ConnectError \<Rightarrow> waking railway config_default
                   | ReadTimeout \<Rightarrow> waking railway config_default
                   | OtherFailure \<Rightarrow> waking railway config_default)"
    by blast
  then have c2: "proxy_get railway config_default env_unreachable
      (Some ''https://hubcloud.example/drive/abc'') False False = Inr (waking railway config_default)"
    by (simp add: f2)
  note T3 = proxy_normalizes
    [of config_default "Some ''https://hubcloud.example/drive/abc''" env_wakes railway False True]
  have h3: "\<not> falsy (SERVICE_URL config_default) \<and> \<not> falsy (Some ''https://hubcloud.example/drive/abc'')
      \<and> (fast_forward env_wakes = ConnectError \<or> fast_forward env_wakes = ReadTimeout
         \<or> (\<exists>code b. fast_forward env_wakes = Response code b
               \<and> (code = 200 \<longrightarrow> (\<exists>json. b = Json json))))"
    by (simp add: falsy_def config_default_def env_wakes_def)
  have f3: "fast_forward env_wakes = Response 503 (Json ''sleeping'')"
    by (simp add: env_wakes_def)
  have m3: "MAX_BLOCK_WAIT config_default = 20" by (simp add: config_default_def)
  have r3: "retry_forward env_wakes k = Response code (Json json) \<Longrightarrow> code = 200 \<and> json = ''entry''"
    for k code json
    by (simp add: env_wakes_def split: if_splits)
  from T3 h3 obtain r where
    p: "proxy_get railway config_default env_wakes (Some ''https://hubcloud.example/drive/abc'')
          False True = Inr r"
    and d: "(\<exists>json. fast_forward env_wakes = Response 200 (Json json) \<and> r = relay 200 json)
           \<or> ((\<forall>b. fast_forward env_wakes \<noteq> Response 200 b) \<and> r = waking railway config_default
              \<and> (True \<longrightarrow> (\<forall>k. 2 * int k < MAX_BLOCK_WAIT config_default \<longrightarrow> \<not> relayable env_wakes k)))
           \<or> ((\<forall>b. fast_forward env_wakes \<noteq> Response 200 b) \<and> True
              \<and> (\<exists>k code json b. 2 * int k < MAX_BLOCK_WAIT config_default
                    \<and> health_poll env_wakes k = Response 200 b
                    \<and> retry_forward env_wakes k = Response code (Json json)
                    \<and> (\<forall>i<k. \<not> relayable env_wakes i)
                    \<and> r = relay code json))"
    by blast
  have "\<not> (\<forall>k. 2 * int k < MAX_BLOCK_WAIT config_default \<longrightarrow> \<not> relayable env_wakes k)"
  proof
    assume "\<forall>k. 2 * int k < MAX_BLOCK_WAIT config_default \<longrightarrow> \<not> relayable env_wakes k"
    then have "\<not> relayable env_wakes 3" by (simp add: m3)
    then show False by (simp add: relayable_wakes)
  qed
  with d have "r = relay 200 ''entry''"
    by (auto simp: f3 dest: r3)
  with p have c3: "proxy_get railway config_default env_wakes (Some ''https://hubcloud.example/drive/abc'')
        False True = Inr (relay 200 ''entry'')"
    by simp
  from c1 c2 c3 show ?thesis by blast
qed

section \<open>Properties of the engine start\<close>

text \<open>
  Claim C5. Two callers that both read the flag before either has finished the launch
  each start a driver and launch a browser: two engine instances exist, although both
  callers see the flag set when they return. Run one after the other, the second caller
  finds the flag set and starts nothing.
\<close>

theorem concurrent_start_creates_two:
  "run_schedule [0, 1, 0, 1, 0, 1] (engine0, [AtCheck, AtCheck])
     = (\<lparr>flag_started = True, drivers = 2, browsers = 2\<rparr>, [Returned, Returned])
   \<and> run_schedule [0, 0, 0, 1] (engine0, [AtCheck, AtCheck])
     = (\<lparr>flag_started = True, drivers = 1, browsers = 1\<rparr>, [Returned, Returned])"
  by (simp add: resume_def engine0_def)

end
